theory Spec2Isabelle
  imports Complex_Main
begin

section \<open>JavaScript values\<close>

text \<open>
  The values that flow through the table facade of \<^verbatim>\<open>src/class.ts\<close>.  A JavaScript number
  is a double: every finite double is a real, so \<open>Finite\<close> over-approximates the finite
  numbers, and the three non-finite doubles are constructors of their own.  A \<open>Date\<close>
  holds an integral time value in milliseconds, or none (an invalid date).  An object is
  a plain object, whose prototype is \<^verbatim>\<open>Object.prototype\<close>: the list of its own enumerable
  properties in the order \<^verbatim>\<open>Object.keys\<close> lists them.
  \<open>JOther\<close> stands for the remaining primitives (bigint, symbol) and for functions; it
  carries the text that \<^verbatim>\<open>String(param)\<close> yields, which for a bigint is its decimal
  numeral: \<^verbatim>\<open>0n\<close> is \<open>JOther ''0''\<close>.
\<close>

datatype js_number = Finite real | NaN | PosInfinity | NegInfinity

datatype js_value =
    JUndefined
  | JNull
  | JBoolean bool
  | JNumber js_number
  | JString string
  | JDate "int option"
  | JArray "js_value list"
  | JObject "(string \<times> js_value) list"
  | JOther string

type_synonym js_record = "(string \<times> js_value) list"

text \<open>\<^verbatim>\<open>Object.keys(o)\<close>, \<^verbatim>\<open>Object.values(o)\<close> and the property read \<^verbatim>\<open>o[k]\<close>, which yields
  \<^verbatim>\<open>undefined\<close> for a property the object does not have.\<close>

definition Object_keys :: "js_record \<Rightarrow> string list" where
  "Object_keys r = map fst r"

definition Object_values :: "js_record \<Rightarrow> js_value list" where
  "Object_values r = map snd r"

definition getProp :: "js_record \<Rightarrow> string \<Rightarrow> js_value" where
  "getProp r k = (case map_of r k of None \<Rightarrow> JUndefined | Some v \<Rightarrow> v)"

text \<open>\<^verbatim>\<open>Date.prototype.getTime\<close>: the time value, \<^verbatim>\<open>NaN\<close> for an invalid date.\<close>

fun getTime :: "int option \<Rightarrow> js_number" where
  "getTime (Some t) = Finite (of_int t)"
| "getTime None = NaN"

text \<open>\<^verbatim>\<open>new Date(n)\<close> for a number \<open>n\<close>: the time value is \<^verbatim>\<open>TimeClip(n)\<close>, which is none for
  a non-finite number or one beyond 8.64e15 in magnitude, and \<open>n\<close> truncated toward zero
  otherwise.\<close>

definition truncate_toward_zero :: "real \<Rightarrow> int" where
  "truncate_toward_zero x = (if 0 \<le> x then \<lfloor>x\<rfloor> else \<lceil>x\<rceil>)"

fun new_Date :: "js_number \<Rightarrow> int option" where
  "new_Date (Finite x) =
     (if \<bar>x\<bar> > 8640000000000000 then None else Some (truncate_toward_zero x))"
| "new_Date NaN = None"
| "new_Date PosInfinity = None"
| "new_Date NegInfinity = None"

section \<open>The language runtime and thrown errors\<close>

text \<open>
  \<^verbatim>\<open>JSON.stringify\<close>, \<^verbatim>\<open>JSON.parse\<close> (none when it throws a \<^verbatim>\<open>SyntaxError\<close>) and the
  conversion \<^verbatim>\<open>String(v)\<close>, which a template literal applies to an interpolated value,
  belong to the language runtime and not to this code base: they are the fields of a
  parameter \<open>rt\<close>.  So do the properties that a value has without their being own
  enumerable properties: \<open>Object_prototype k\<close> is the member of \<^verbatim>\<open>Object.prototype\<close> named
  \<open>k\<close> (\<^verbatim>\<open>constructor\<close>, \<^verbatim>\<open>toString\<close>, \<^verbatim>\<open>valueOf\<close>, \<^verbatim>\<open>hasOwnProperty\<close>, ...; a function is a
  \<open>JOther\<close>), which every plain object inherits, and \<open>builtin_property v k\<close> is what the
  read \<^verbatim>\<open>v[k]\<close> finds for a value \<open>v\<close> that is not a plain object (the \<^verbatim>\<open>length\<close> of an array
  or a string, a member of the prototype chain of \<open>v\<close>); both are \<^verbatim>\<open>undefined\<close> when there is
  no such property.
\<close>

record runtime =
  JSON_stringify :: "js_value \<Rightarrow> string"
  JSON_parse :: "string \<Rightarrow> js_value option"
  toString :: "js_value \<Rightarrow> string"
  Object_prototype :: "string \<Rightarrow> js_value"
  builtin_property :: "js_value \<Rightarrow> string \<Rightarrow> js_value"

text \<open>
  Every \<^verbatim>\<open>throw\<close> of the modelled code is a constructor, named after its message:
  \<^item> \<open>LimitNegative\<close>: "Limit must be a positive number"; \<open>SkipNegative\<close> likewise;
  \<^item> \<open>NoRecordsForInsertion\<close>, \<open>NoRecordsForBulkInsertion\<close>, \<open>NoRecordsForUpsert\<close>:
    "No records provided for ...";
  \<^item> \<open>UpdateValuesEmpty\<close>: "Update values cannot be empty";
  \<^item> \<open>UpdateRequiresWhere\<close>: "Update operation requires a WHERE clause for safety";
  \<^item> \<open>UpdateRequiresNonEmptyWhere\<close>: "Update operation requires a non-empty WHERE clause
    for safety"; the two \<open>Delete\<close> constructors likewise;
  \<^item> \<open>TableNameEmpty\<close>: "Table name cannot be empty"; \<open>TableNeedsColumn\<close>: "Table must have
    at least one column"; \<open>TableNeedsPrimaryKey n\<close>: "Table 'n' must have at least one
    primary key column"; \<open>DuplicateColumnNames n\<close>: "Table 'n' has duplicate column names";
  \<^item> \<open>LockedAfterRetries\<close>: "Database is locked after multiple retry attempts";
    \<open>UnexpectedInWrapper\<close>: "Unexpected error in executeWithErrorWrapper";
  \<^item> \<open>InvalidJsonFormat\<close>: "Invalid JSON format: expected 'data' array";
  \<^item> \<open>SyntaxError\<close>: thrown by \<^verbatim>\<open>JSON.parse\<close>; \<open>TypeError\<close>: thrown by the runtime on a
    property read or \<^verbatim>\<open>Object.keys\<close> of \<^verbatim>\<open>null\<close> or \<^verbatim>\<open>undefined\<close>;
  \<^item> \<open>SQLiteError m\<close>: an error of the engine whose \<^verbatim>\<open>name\<close> is "SQLiteError", with its
    message; \<open>EngineError m\<close>: any other error the engine throws.
\<close>

datatype error =
    LimitNegative | SkipNegative
  | NoRecordsForInsertion | NoRecordsForBulkInsertion | NoRecordsForUpsert
  | UpdateValuesEmpty | UpdateRequiresWhere | UpdateRequiresNonEmptyWhere
  | DeleteRequiresWhere | DeleteRequiresNonEmptyWhere
  | TableNameEmpty | TableNeedsColumn | TableNeedsPrimaryKey string
  | DuplicateColumnNames string
  | LockedAfterRetries | UnexpectedInWrapper
  | InvalidJsonFormat
  | SyntaxError | TypeError
  | SQLiteError string | EngineError string

text \<open>The kinds of the specification's error taxonomy, by throw site.\<close>

definition is_MissingPredicate :: "error \<Rightarrow> bool" where
  "is_MissingPredicate e \<longleftrightarrow>
     e = UpdateRequiresWhere \<or> e = UpdateRequiresNonEmptyWhere \<or>
     e = DeleteRequiresWhere \<or> e = DeleteRequiresNonEmptyWhere"

definition is_EmptyUpdate :: "error \<Rightarrow> bool" where
  "is_EmptyUpdate e \<longleftrightarrow> e = UpdateValuesEmpty"

fun is_InvalidSchema :: "error \<Rightarrow> bool" where
  "is_InvalidSchema TableNameEmpty = True"
| "is_InvalidSchema TableNeedsColumn = True"
| "is_InvalidSchema (TableNeedsPrimaryKey n) = True"
| "is_InvalidSchema (DuplicateColumnNames n) = True"
| "is_InvalidSchema e = False"

text \<open>Sequencing of computations that may throw.\<close>

definition bindE :: "error + 'a \<Rightarrow> ('a \<Rightarrow> error + 'b) \<Rightarrow> error + 'b" where
  "bindE x f = (case x of Inl e \<Rightarrow> Inl e | Inr v \<Rightarrow> f v)"

fun mapE :: "('a \<Rightarrow> error + 'b) \<Rightarrow> 'a list \<Rightarrow> error + 'b list" where
  "mapE f [] = Inr []"
| "mapE f (x # xs) =
     (case f x of Inl e \<Rightarrow> Inl e
      | Inr y \<Rightarrow> (case mapE f xs of Inl e \<Rightarrow> Inl e | Inr ys \<Rightarrow> Inr (y # ys)))"

section \<open>Runtime operations on values\<close>

text \<open>Truthiness (\<^verbatim>\<open>ToBoolean\<close>).  Of the values that \<open>JOther\<close> stands for, symbols and
  functions are truthy and a bigint is falsy when it is \<^verbatim>\<open>0n\<close>, the one whose text is
  \<^verbatim>\<open>"0"\<close>.\<close>

fun truthy :: "js_value \<Rightarrow> bool" where
  "truthy JUndefined = False"
| "truthy JNull = False"
| "truthy (JBoolean b) = b"
| "truthy (JNumber (Finite x)) = (x \<noteq> 0)"
| "truthy (JNumber NaN) = False"
| "truthy (JNumber PosInfinity) = True"
| "truthy (JNumber NegInfinity) = True"
| "truthy (JString s) = (s \<noteq> [])"
| "truthy (JDate d) = True"
| "truthy (JArray xs) = True"
| "truthy (JObject r) = True"
| "truthy (JOther s) = (s \<noteq> ''0'')"

fun isArray :: "js_value \<Rightarrow> bool" where
  "isArray (JArray xs) = True"
| "isArray v = False"

text \<open>\<^verbatim>\<open>k in o\<close> for an object \<open>o\<close> given by its own properties (none of the keys the
  modelled code tests is inherited).\<close>

definition has_key :: "string \<Rightarrow> js_record \<Rightarrow> bool" where
  "has_key k r \<longleftrightarrow> k \<in> set (map fst r)"

fun decimal :: "nat \<Rightarrow> string" where
  "decimal n = (if n < 10 then [''0123456789'' ! n]
                else decimal (n div 10) @ [''0123456789'' ! (n mod 10)])"

text \<open>\<^verbatim>\<open>Object.keys(v)\<close> and \<^verbatim>\<open>Object.values(v)\<close> for a value that is not \<^verbatim>\<open>null\<close> or
  \<^verbatim>\<open>undefined\<close>: the own properties of an object, the indices of an array or a string,
  nothing for the other values.  On \<^verbatim>\<open>null\<close> and \<^verbatim>\<open>undefined\<close> the runtime throws.\<close>

fun keys_of :: "js_value \<Rightarrow> string list" where
  "keys_of (JObject r) = Object_keys r"
| "keys_of (JArray xs) = map decimal [0..<length xs]"
| "keys_of (JString s) = map decimal [0..<length s]"
| "keys_of v = []"

fun values_of :: "js_value \<Rightarrow> js_value list" where
  "values_of (JObject r) = Object_values r"
| "values_of (JArray xs) = xs"
| "values_of (JString s) = map (\<lambda>c. JString [c]) s"
| "values_of v = []"

fun nullish :: "js_value \<Rightarrow> bool" where
  "nullish JUndefined = True"
| "nullish JNull = True"
| "nullish v = False"

definition Object_keys_of :: "js_value \<Rightarrow> error + string list" where
  "Object_keys_of v = (if nullish v then Inl TypeError else Inr (keys_of v))"

definition Object_values_of :: "js_value \<Rightarrow> error + js_value list" where
  "Object_values_of v = (if nullish v then Inl TypeError else Inr (values_of v))"

text \<open>\<^verbatim>\<open>k in v\<close> and the property read \<^verbatim>\<open>v.k\<close> for a key that the code names itself
  (\<^verbatim>\<open>LIKE\<close>, \<^verbatim>\<open>OR\<close>, \<^verbatim>\<open>data\<close>, ...): none of these names is inherited, so the own
  enumerable properties decide.  The read throws on \<^verbatim>\<open>null\<close> and \<^verbatim>\<open>undefined\<close>.\<close>

definition has_own :: "string \<Rightarrow> js_value \<Rightarrow> bool" where
  "has_own k v \<longleftrightarrow> k \<in> set (keys_of v)"

definition own :: "js_value \<Rightarrow> string \<Rightarrow> js_value" where
  "own v k = (case map_of (zip (keys_of v) (values_of v)) k of
                None \<Rightarrow> JUndefined | Some x \<Rightarrow> x)"

definition read :: "js_value \<Rightarrow> string \<Rightarrow> error + js_value" where
  "read v k = (if nullish v then Inl TypeError else Inr (own v k))"

text \<open>The property read \<^verbatim>\<open>v[k]\<close> for a key \<open>k\<close> that the caller chooses: an own enumerable
  property if \<open>v\<close> has one of that name; otherwise, for a plain object, the member of
  \<^verbatim>\<open>Object.prototype\<close> of that name, and for any other value what the runtime finds.\<close>

definition read_chain :: "runtime \<Rightarrow> js_value \<Rightarrow> string \<Rightarrow> error + js_value" where
  "read_chain rt v k =
     (if nullish v then Inl TypeError
      else if has_own k v then Inr (own v k)
      else (case v of
              JObject r \<Rightarrow> Inr (Object_prototype rt k)
            | _ \<Rightarrow> Inr (builtin_property rt v k)))"

text \<open>\<^verbatim>\<open>Array.prototype.join\<close> on strings, \<^verbatim>\<open>String.prototype.includes\<close>, and the test
  \<^verbatim>\<open>s.trim() === ''\<close>, which holds when every character of \<open>s\<close> is white space or a line
  terminator (the ones among the 8-bit characters).\<close>

fun join :: "string \<Rightarrow> string list \<Rightarrow> string" where
  "join sep [] = []"
| "join sep [x] = x"
| "join sep (x # y # ys) = x @ sep @ join sep (y # ys)"

fun str_includes :: "string \<Rightarrow> string \<Rightarrow> bool" where
  "str_includes [] p = (p = [])"
| "str_includes (c # cs) p = (take (length p) (c # cs) = p \<or> str_includes cs p)"

definition is_white_space :: "char \<Rightarrow> bool" where
  "is_white_space c \<longleftrightarrow> of_char c \<in> {9, 10, 11, 12, 13, 32, 160 :: nat}"

definition trim_is_empty :: "string \<Rightarrow> bool" where
  "trim_is_empty s \<longleftrightarrow> list_all is_white_space s"

section \<open>Row codec: encoding\<close>

text \<open>
  \<^verbatim>\<open>Table.parseParameters\<close> (class.ts, 2988-3007).  The branches are those of the source,
  in its order; \<open>encodeParam\<close> is the body of the \<^verbatim>\<open>map\<close> callback.
\<close>

fun encodeParam :: "runtime \<Rightarrow> js_value \<Rightarrow> js_value" where
  "encodeParam rt (JNumber n) = JNumber n"
| "encodeParam rt (JString s) = JString s"
| "encodeParam rt (JBoolean b) = JNumber (Finite (if b then 1 else 0))"
| "encodeParam rt (JDate d) = JNumber (getTime d)"
| "encodeParam rt (JArray xs) = JString (JSON_stringify rt (JArray xs))"
| "encodeParam rt (JObject r) = JString (JSON_stringify rt (JObject r))"
| "encodeParam rt JNull = JString []"
| "encodeParam rt JUndefined = JString []"
| "encodeParam rt (JOther s) = JString s"

definition parseParameters :: "runtime \<Rightarrow> js_value list \<Rightarrow> js_value list" where
  "parseParameters rt params = map (encodeParam rt) params"

text \<open>\<^verbatim>\<open>Table.formatRecordValuesForInsert\<close> (class.ts, 3021-3027).  The record is declared
  an object; one that comes from parsed JSON can be any value, and the read
  \<^verbatim>\<open>record[column]\<close> throws on \<^verbatim>\<open>null\<close> and \<^verbatim>\<open>undefined\<close>.  The columns are the keys of
  another record, so the read can find an inherited property where the record has none
  of its own.\<close>

definition formatRecordValuesForInsert ::
  "runtime \<Rightarrow> js_value \<Rightarrow> string list \<Rightarrow> error + js_value list" where
  "formatRecordValuesForInsert rt record columns =
     mapE (\<lambda>column. bindE (read_chain rt record column)
                          (\<lambda>v. Inr (hd (parseParameters rt [v])))) columns"

section \<open>Schema model\<close>

text \<open>\<^verbatim>\<open>ColumnsSchema\<close> and \<^verbatim>\<open>TableSchema\<close> of the schema module.  An optional flag
  (\<^verbatim>\<open>primary?: true\<close>) is a boolean, false when absent; an absent \<^verbatim>\<open>default\<close> is
  \<^verbatim>\<open>undefined\<close>.  The flag \<open>autoIncrement\<close> is a field of every column, as it can be of
  every object at run time, although the declared type has it on \<^verbatim>\<open>number\<close> columns
  only.\<close>

datatype column_type = TNumber | TString | TDate | TJson | TFloat | TBoolean

record column =
  name :: string
  type :: column_type
  primary :: bool
  unique :: bool
  nullable :: bool
  autoIncrement :: bool
  default :: js_value

record table_schema =
  name :: string
  columns :: "column list"

text \<open>\<^verbatim>\<open>DatabaseManager.validateTableSchema\<close> (class.ts, 753-773).\<close>

definition validateTableSchema :: "table_schema \<Rightarrow> error + unit" where
  "validateTableSchema schema =
     (if table_schema.name schema = [] \<or> trim_is_empty (table_schema.name schema)
      then Inl TableNameEmpty
      else if length (columns schema) = 0 then Inl TableNeedsColumn
      else if \<not> list_ex primary (columns schema)
      then Inl (TableNeedsPrimaryKey (table_schema.name schema))
      else if length (map column.name (columns schema))
              \<noteq> card (set (map column.name (columns schema)))
      then Inl (DuplicateColumnNames (table_schema.name schema))
      else Inr ())"

text \<open>\<^verbatim>\<open>DatabaseManager.getSQLiteDataType\<close> (class.ts, 796-811); the \<^verbatim>\<open>default\<close> branch of
  its switch is for a type outside \<open>column_type\<close>.\<close>

definition getSQLiteDataType :: "column \<Rightarrow> string" where
  "getSQLiteDataType c =
     (case type c of
        TNumber \<Rightarrow> ''INTEGER''
      | TFloat \<Rightarrow> ''REAL''
      | TDate \<Rightarrow> ''INTEGER''
      | TBoolean \<Rightarrow> ''INTEGER''
      | TString \<Rightarrow> ''TEXT''
      | TJson \<Rightarrow> ''TEXT'')"

text \<open>\<^verbatim>\<open>DatabaseManager.formatDefaultValue\<close> (class.ts, 846-875); \<open>is_object\<close> is
  \<^verbatim>\<open>typeof v === "object"\<close>.\<close>

fun is_object :: "js_value \<Rightarrow> bool" where
  "is_object JNull = True"
| "is_object (JDate d) = True"
| "is_object (JArray xs) = True"
| "is_object (JObject r) = True"
| "is_object v = False"

definition quoted :: "string \<Rightarrow> string" where
  "quoted s = [CHR 0x27] @ s @ [CHR 0x27]"

definition formatDefaultValue :: "runtime \<Rightarrow> js_value \<Rightarrow> column_type \<Rightarrow> string" where
  "formatDefaultValue rt defaultValue ty =
     (if defaultValue = JNull then ''NULL''
      else case ty of
        TString \<Rightarrow>
          (if is_object defaultValue then quoted (JSON_stringify rt defaultValue)
           else quoted (toString rt defaultValue))
      | TJson \<Rightarrow>
          (if is_object defaultValue then quoted (JSON_stringify rt defaultValue)
           else quoted (toString rt defaultValue))
      | TBoolean \<Rightarrow> (if truthy defaultValue then ''1'' else ''0'')
      | TDate \<Rightarrow>
          (case defaultValue of
             JDate d \<Rightarrow> toString rt (JNumber (getTime d))
           | _ \<Rightarrow> toString rt defaultValue)
      | TNumber \<Rightarrow> toString rt defaultValue
      | TFloat \<Rightarrow> toString rt defaultValue)"

text \<open>\<^verbatim>\<open>DatabaseManager.buildColumnConstraints\<close> (class.ts, 816-841): the list
  \<^verbatim>\<open>constraints\<close> first, then the text the function returns.\<close>

definition columnConstraints :: "runtime \<Rightarrow> column \<Rightarrow> string list" where
  "columnConstraints rt c =
     (if primary c then [''PRIMARY KEY''] else []) @
     (if type c = TNumber \<and> autoIncrement c then [''AUTOINCREMENT''] else []) @
     (if \<not> nullable c \<and> \<not> primary c then [''NOT NULL''] else []) @
     (if unique c \<and> \<not> primary c then [''UNIQUE''] else []) @
     (if default c \<noteq> JUndefined
      then [''DEFAULT '' @ formatDefaultValue rt (default c) (type c)] else [])"

definition buildColumnConstraints :: "runtime \<Rightarrow> column \<Rightarrow> string" where
  "buildColumnConstraints rt c =
     (if length (columnConstraints rt c) > 0
      then '' '' @ join '' '' (columnConstraints rt c) else [])"

text \<open>\<^verbatim>\<open>buildColumnDefinition\<close> and \<^verbatim>\<open>buildCreateTableQuery\<close> (class.ts, 778-791).\<close>

definition buildColumnDefinition :: "runtime \<Rightarrow> column \<Rightarrow> string" where
  "buildColumnDefinition rt c =
     column.name c @ '' '' @ getSQLiteDataType c @ buildColumnConstraints rt c"

definition buildCreateTableQuery :: "runtime \<Rightarrow> table_schema \<Rightarrow> string" where
  "buildCreateTableQuery rt schema =
     ''CREATE TABLE IF NOT EXISTS '' @ table_schema.name schema @ '' ('' @
     join '', '' (map (buildColumnDefinition rt) (columns schema)) @ '')''"

section \<open>Predicate compiler\<close>

text \<open>A where clause is an object (the declared type \<^verbatim>\<open>WhereClause\<close>): the list of its
  properties.  The values of its properties are any values, and the code tests them
  before use.  \<open>operator_keys\<close> is the array literal that the source repeats in
  \<^verbatim>\<open>hasValidWhereConditions\<close>, \<^verbatim>\<open>buildWhereClause\<close> and \<^verbatim>\<open>extractWhereParameters\<close>.\<close>

definition operator_keys :: "string list" where
  "operator_keys = [''LIKE'', ''OR'', ''greaterThan'', ''lessThan'', ''notEqual'',
                    ''greaterThanOrEqual'', ''lessThanOrEqual'']"

text \<open>\<^verbatim>\<open>arr.length\<close> of an array.\<close>

fun array_length :: "js_value \<Rightarrow> nat" where
  "array_length (JArray xs) = length xs"
| "array_length v = 0"

text \<open>\<^verbatim>\<open>Table.hasValidWhereConditions\<close> (class.ts, 2807-2829).  \<open>nonEmptyOperator\<close> is the
  test \<^verbatim>\<open>'k' in where && where.k && Object.keys(where.k).length > 0\<close>, which the source
  writes once per operator.\<close>

definition nonEmptyOperator :: "string \<Rightarrow> js_record \<Rightarrow> bool" where
  "nonEmptyOperator k w \<longleftrightarrow>
     has_key k w \<and> truthy (getProp w k) \<and> length (keys_of (getProp w k)) > 0"

definition hasValidWhereConditions :: "js_record \<Rightarrow> bool" where
  "hasValidWhereConditions w =
     (if length (Object_keys w) = 0 then False
      else if length (filter (\<lambda>key. key \<notin> set operator_keys) (Object_keys w)) > 0 then True
      else if nonEmptyOperator ''LIKE'' w then True
      else if has_key ''OR'' w \<and> truthy (getProp w ''OR'') \<and> isArray (getProp w ''OR'')
              \<and> array_length (getProp w ''OR'') > 0 then True
      else if nonEmptyOperator ''greaterThan'' w then True
      else if nonEmptyOperator ''lessThan'' w then True
      else if nonEmptyOperator ''notEqual'' w then True
      else if nonEmptyOperator ''greaterThanOrEqual'' w then True
      else if nonEmptyOperator ''lessThanOrEqual'' w then True
      else False)"

text \<open>The options object of \<^verbatim>\<open>select\<close>, \<^verbatim>\<open>update\<close>, \<^verbatim>\<open>delete\<close> and \<^verbatim>\<open>count\<close>: every
  property is optional at run time, none when absent.\<close>

record options =
  "where" :: "js_record option"
  select :: "js_record option"
  limit :: "js_number option"
  skip :: "js_number option"
  "values" :: "js_record option"

text \<open>\<^verbatim>\<open>validateSelectOptions\<close>, \<^verbatim>\<open>validateUpdateOptions\<close>, \<^verbatim>\<open>validateDeleteOptions\<close>
  (class.ts, 2770-2805).  \<open>number_truthy\<close> is an optional number as a condition,
  \<open>truthy_and_negative\<close> is \<^verbatim>\<open>n && n < 0\<close>.\<close>

definition number_truthy :: "js_number option \<Rightarrow> bool" where
  "number_truthy n = (case n of None \<Rightarrow> False | Some x \<Rightarrow> truthy (JNumber x))"

fun number_negative :: "js_number \<Rightarrow> bool" where
  "number_negative (Finite x) = (x < 0)"
| "number_negative NegInfinity = True"
| "number_negative n = False"

definition truthy_and_negative :: "js_number option \<Rightarrow> bool" where
  "truthy_and_negative n =
     (case n of None \<Rightarrow> False | Some x \<Rightarrow> truthy (JNumber x) \<and> number_negative x)"

definition validateSelectOptions :: "options \<Rightarrow> error + unit" where
  "validateSelectOptions opts =
     (if truthy_and_negative (limit opts) then Inl LimitNegative
      else if truthy_and_negative (skip opts) then Inl SkipNegative
      else Inr ())"

definition validateUpdateOptions :: "options \<Rightarrow> error + unit" where
  "validateUpdateOptions opts =
     (case values opts of
        None \<Rightarrow> Inl UpdateValuesEmpty
      | Some vals \<Rightarrow>
          if length (Object_keys vals) = 0 then Inl UpdateValuesEmpty
          else (case where opts of
                  None \<Rightarrow> Inl UpdateRequiresWhere
                | Some w \<Rightarrow>
                    if \<not> hasValidWhereConditions w then Inl UpdateRequiresNonEmptyWhere
                    else Inr ()))"

definition validateDeleteOptions :: "options \<Rightarrow> error + unit" where
  "validateDeleteOptions opts =
     (case where opts of
        None \<Rightarrow> Inl DeleteRequiresWhere
      | Some w \<Rightarrow>
          if \<not> hasValidWhereConditions w then Inl DeleteRequiresNonEmptyWhere
          else Inr ())"

text \<open>\<^verbatim>\<open>Table.buildWhereClause\<close> (class.ts, 2861-2925).  \<open>operatorConditions k op\<close> is one of
  the six blocks \<^verbatim>\<open>if ('k' in where && where.k) { ... map(key => `${key} op ?`) }\<close>,
  \<open>conditionText op key\<close> the template literal \<^verbatim>\<open>`${key} op ?`\<close>;
  \<open>orCondition\<close> is the callback of \<^verbatim>\<open>where.OR.map\<close>, where \<^verbatim>\<open>Object.keys(condition)\<close> throws
  on \<^verbatim>\<open>null\<close> and \<^verbatim>\<open>undefined\<close>.\<close>

definition conditionText :: "string \<Rightarrow> string \<Rightarrow> string" where
  "conditionText op key = key @ '' '' @ op @ '' ?''"

definition operatorConditions :: "string \<Rightarrow> string \<Rightarrow> js_record \<Rightarrow> string list" where
  "operatorConditions k op w =
     (if has_key k w \<and> truthy (getProp w k)
      then map (conditionText op) (keys_of (getProp w k)) else [])"

definition conditionHasLike :: "js_value \<Rightarrow> bool" where
  "conditionHasLike condition \<longleftrightarrow>
     is_object condition \<and> condition \<noteq> JNull \<and> has_own ''LIKE'' condition
     \<and> truthy (own condition ''LIKE'')"

definition orCondition :: "js_value \<Rightarrow> error + string" where
  "orCondition condition =
     (if conditionHasLike condition
      then Inr (join '' AND '' (map (conditionText ''LIKE'') (keys_of (own condition ''LIKE''))))
      else bindE (Object_keys_of condition)
             (\<lambda>ks. Inr (join '' AND '' (map (conditionText ''='') ks))))"

definition orConditions :: "js_record \<Rightarrow> error + string list" where
  "orConditions w =
     (if has_key ''OR'' w \<and> truthy (getProp w ''OR'') \<and> isArray (getProp w ''OR'')
      then bindE (mapE orCondition (values_of (getProp w ''OR'')))
             (\<lambda>ors. Inr [''('' @ join '' OR '' ors @ '')''])
      else Inr [])"

definition regularFields :: "js_record \<Rightarrow> string list" where
  "regularFields w = filter (\<lambda>key. key \<notin> set operator_keys) (Object_keys w)"

definition whereConditions :: "js_record \<Rightarrow> error + string list" where
  "whereConditions w =
     bindE (orConditions w) (\<lambda>ors. Inr (
       operatorConditions ''LIKE'' ''LIKE'' w @
       operatorConditions ''greaterThan'' ''>'' w @
       operatorConditions ''lessThan'' ''<'' w @
       operatorConditions ''notEqual'' ''!='' w @
       operatorConditions ''greaterThanOrEqual'' ''>='' w @
       operatorConditions ''lessThanOrEqual'' ''<='' w @
       ors @
       (if length (regularFields w) > 0
        then map (conditionText ''='') (regularFields w) else [])))"

definition buildWhereClause :: "js_record \<Rightarrow> error + string" where
  "buildWhereClause w =
     (if length (Object_keys w) = 0 then Inr []
      else bindE (whereConditions w) (\<lambda>conditions.
             Inr (if length conditions > 0
                  then ''WHERE '' @ join '' AND '' conditions else [])))"

text \<open>\<^verbatim>\<open>Table.extractWhereParameters\<close> (class.ts, 2932-2986), with the same split.\<close>

definition operatorParameters :: "runtime \<Rightarrow> string \<Rightarrow> js_record \<Rightarrow> js_value list" where
  "operatorParameters rt k w =
     (if has_key k w \<and> truthy (getProp w k)
      then parseParameters rt (values_of (getProp w k)) else [])"

definition orParameter :: "runtime \<Rightarrow> js_value \<Rightarrow> error + js_value list" where
  "orParameter rt condition =
     (if conditionHasLike condition
      then Inr (parseParameters rt (values_of (own condition ''LIKE'')))
      else bindE (Object_values_of condition) (\<lambda>vs. Inr (parseParameters rt vs)))"

definition orParameters :: "runtime \<Rightarrow> js_record \<Rightarrow> error + js_value list" where
  "orParameters rt w =
     (if has_key ''OR'' w \<and> truthy (getProp w ''OR'') \<and> isArray (getProp w ''OR'')
      then bindE (mapE (orParameter rt) (values_of (getProp w ''OR'')))
             (\<lambda>ps. Inr (concat ps))
      else Inr [])"

definition extractWhereParameters :: "runtime \<Rightarrow> js_record \<Rightarrow> error + js_value list" where
  "extractWhereParameters rt w =
     bindE (orParameters rt w) (\<lambda>ors. Inr (
       operatorParameters rt ''LIKE'' w @
       operatorParameters rt ''greaterThan'' w @
       operatorParameters rt ''lessThan'' w @
       operatorParameters rt ''notEqual'' w @
       operatorParameters rt ''greaterThanOrEqual'' w @
       operatorParameters rt ''lessThanOrEqual'' w @
       ors @
       (if length (regularFields w) > 0
        then parseParameters rt (map (\<lambda>key. getProp w key) (regularFields w)) else [])))"

definition extractQueryParameters :: "runtime \<Rightarrow> options \<Rightarrow> error + js_value list" where
  "extractQueryParameters rt opts =
     (case where opts of None \<Rightarrow> Inr [] | Some w \<Rightarrow> extractWhereParameters rt w)"

section \<open>The engine\<close>

text \<open>
  The embedded engine (\<^verbatim>\<open>bun:sqlite\<close>) is not part of this code base: it is a parameter
  \<open>eng\<close>, a function from the state of the database and a request to the rows it yields,
  the error it throws if any, and the next state.  A request is what the facade hands to
  the engine in one piece:
  \<^item> \<open>Query q ps\<close>: prepare \<open>q\<close>, execute it once with the parameters \<open>ps\<close> bound
    (\<^verbatim>\<open>all\<close>, \<^verbatim>\<open>get\<close> or \<^verbatim>\<open>run\<close>), finalize;
  \<^item> \<open>Transaction q vs abort\<close>: prepare \<open>q\<close>; inside one transaction run it once for
    each vector of \<open>vs\<close>; then, if \<open>abort\<close> is an error, the callback of the transaction
    throws it and the transaction is rolled back.  The rows are the results of the runs made
    (each holds \<^verbatim>\<open>lastInsertRowid\<close>).
  A session is the state of the database together with the requests issued so far.
\<close>

datatype request =
    Query string "js_value list"
  | Transaction string "js_value list list" "error option"

type_synonym 'db engine = "'db \<Rightarrow> request \<Rightarrow> (js_record list \<times> error option) \<times> 'db"

record 'db session =
  store :: 'db
  issued :: "request list"

definition perform ::
  "'db engine \<Rightarrow> request \<Rightarrow> 'db session \<Rightarrow> (js_record list \<times> error option) \<times> 'db session" where
  "perform eng req s =
     (case eng (store s) req of
        (response, db') \<Rightarrow> (response, s\<lparr>store := db', issued := issued s @ [req]\<rparr>))"

definition query ::
  "'db engine \<Rightarrow> string \<Rightarrow> js_value list \<Rightarrow> 'db session \<Rightarrow> (error + js_record list) \<times> 'db session" where
  "query eng q ps s =
     (case perform eng (Query q ps) s of
        ((rows, Some e), s') \<Rightarrow> (Inl e, s')
      | ((rows, None), s') \<Rightarrow> (Inr rows, s'))"

definition transact ::
  "'db engine \<Rightarrow> string \<Rightarrow> js_value list list \<times> error option \<Rightarrow> 'db session
     \<Rightarrow> (js_record list \<times> error option) \<times> 'db session" where
  "transact eng q bindings s =
     (case perform eng (Transaction q (fst bindings) (snd bindings)) s of
        ((rows, Some e), s') \<Rightarrow> ((rows, Some e), s')
      | ((rows, None), s') \<Rightarrow> ((rows, snd bindings), s'))"

text \<open>\<^verbatim>\<open>Table.executeWithErrorWrapper\<close> (class.ts, 3062-3089): the callback is run again
  after a "database is locked" error of the engine, three times at most.\<close>

fun is_locked :: "error \<Rightarrow> bool" where
  "is_locked (SQLiteError m) = str_includes m ''database is locked''"
| "is_locked e = False"

function executeWithErrorWrapper_from ::
  "nat \<Rightarrow> ('s \<Rightarrow> (error + 'r) \<times> 's) \<Rightarrow> 's \<Rightarrow> (error + 'r) \<times> 's" where
  "executeWithErrorWrapper_from retries callback s =
     (if retries < 3 then
        (case callback s of
           (Inr r, s') \<Rightarrow> (Inr r, s')
         | (Inl lastError, s') \<Rightarrow>
             if is_locked lastError then
               (if retries + 1 \<ge> 3 then (Inl LockedAfterRetries, s')
                else executeWithErrorWrapper_from (retries + 1) callback s')
             else (Inl lastError, s'))
      else (Inl UnexpectedInWrapper, s))"
  by pat_completeness auto
termination
  by (relation "measure (\<lambda>(retries, callback, s). 3 - retries)") auto

definition executeWithErrorWrapper ::
  "('s \<Rightarrow> (error + 'r) \<times> 's) \<Rightarrow> 's \<Rightarrow> (error + 'r) \<times> 's" where
  "executeWithErrorWrapper callback s = executeWithErrorWrapper_from 0 callback s"

section \<open>Row codec: decoding\<close>

text \<open>A table facade: its name and the columns of its schema (\<^verbatim>\<open>Table\<close>, class.ts,
  1807-1826).  \<^verbatim>\<open>Table.restoreDataTypes\<close> (class.ts, 3029-3060); \<open>restoreValue\<close> is the
  switch on the type of the column, \<open>restoreEntry\<close> the body of the loop.\<close>

record table =
  tableName :: string
  schema :: "column list"

definition restoreValue :: "runtime \<Rightarrow> column_type \<Rightarrow> js_value \<Rightarrow> js_value" where
  "restoreValue rt ty v =
     (case ty of
        TDate \<Rightarrow> (case v of JNumber n \<Rightarrow> JDate (new_Date n) | _ \<Rightarrow> v)
      | TJson \<Rightarrow>
          (case v of
             JString s \<Rightarrow> (case JSON_parse rt s of Some parsed \<Rightarrow> parsed | None \<Rightarrow> v)
           | _ \<Rightarrow> v)
      | TBoolean \<Rightarrow> JBoolean (v = JNumber (Finite 1))
      | _ \<Rightarrow> v)"

definition restoreEntry :: "runtime \<Rightarrow> table \<Rightarrow> string \<times> js_value \<Rightarrow> string \<times> js_value" where
  "restoreEntry rt tbl entry =
     (case find (\<lambda>col. column.name col = fst entry) (schema tbl) of
        None \<Rightarrow> (fst entry, snd entry)
      | Some col \<Rightarrow> (fst entry, restoreValue rt (type col) (snd entry)))"

definition restoreDataTypes :: "runtime \<Rightarrow> table \<Rightarrow> js_record \<Rightarrow> js_record" where
  "restoreDataTypes rt tbl row = map (restoreEntry rt tbl) row"

section \<open>Table facade: queries\<close>

text \<open>The test \<^verbatim>\<open>where && 'OR' in where && Array.isArray(where.OR) && where.OR.length === 0\<close>
  that \<^verbatim>\<open>select\<close>, \<^verbatim>\<open>delete\<close> and \<^verbatim>\<open>count\<close> make under the comment "Handle empty OR
  conditions".\<close>

definition emptyOR :: "js_record option \<Rightarrow> bool" where
  "emptyOR w =
     (case w of
        None \<Rightarrow> False
      | Some r \<Rightarrow> has_key ''OR'' r \<and> isArray (getProp r ''OR'')
                  \<and> array_length (getProp r ''OR'') = 0)"

text \<open>The callbacks that the operations hand to \<^verbatim>\<open>executeWithErrorWrapper\<close>: prepare,
  execute, finalize, and then
  \<^item> \<open>selectRows\<close>: \<^verbatim>\<open>results.map(row => this.restoreDataTypes(row))\<close>
    (\<^verbatim>\<open>select\<close>, \<^verbatim>\<open>paginate\<close>);
  \<^item> \<open>countRow\<close>: \<^verbatim>\<open>result.count\<close> of the first row, a read that throws when there is no
    row (\<^verbatim>\<open>paginate\<close>);
  \<^item> \<open>runStatement\<close>: nothing (\<^verbatim>\<open>update\<close>, \<^verbatim>\<open>delete\<close>).\<close>

definition selectRows ::
  "runtime \<Rightarrow> 'db engine \<Rightarrow> table \<Rightarrow> string \<Rightarrow> js_value list \<Rightarrow> 'db session
     \<Rightarrow> (error + js_record list) \<times> 'db session" where
  "selectRows rt eng tbl q ps s =
     (case query eng q ps s of
        (Inl e, s') \<Rightarrow> (Inl e, s')
      | (Inr results, s') \<Rightarrow> (Inr (map (restoreDataTypes rt tbl) results), s'))"

definition firstCount :: "js_record list \<Rightarrow> error + js_value" where
  "firstCount rows = (case rows of [] \<Rightarrow> Inl TypeError | row # _ \<Rightarrow> Inr (getProp row ''count''))"

definition countRow ::
  "'db engine \<Rightarrow> string \<Rightarrow> js_value list \<Rightarrow> 'db session \<Rightarrow> (error + js_value) \<times> 'db session" where
  "countRow eng q ps s =
     (case query eng q ps s of
        (Inl e, s') \<Rightarrow> (Inl e, s')
      | (Inr rows, s') \<Rightarrow> (firstCount rows, s'))"

definition runStatement ::
  "'db engine \<Rightarrow> string \<Rightarrow> js_value list \<Rightarrow> 'db session \<Rightarrow> (error + unit) \<times> 'db session" where
  "runStatement eng q ps s =
     (case query eng q ps s of
        (Inl e, s') \<Rightarrow> (Inl e, s')
      | (Inr rows, s') \<Rightarrow> (Inr (), s'))"

text \<open>\<^verbatim>\<open>Table.buildSelectQuery\<close> (class.ts, 2832-2859).\<close>

definition buildSelectQuery :: "runtime \<Rightarrow> table \<Rightarrow> options \<Rightarrow> error + string" where
  "buildSelectQuery rt tbl opts =
     bindE (case where opts of
              None \<Rightarrow> Inr []
            | Some w \<Rightarrow> bindE (buildWhereClause w) (\<lambda>wc. Inr ('' '' @ wc)))
       (\<lambda>wherePart. Inr (
          ''SELECT '' @
          (case select opts of
             None \<Rightarrow> ''*''
           | Some sel \<Rightarrow> join '', '' (filter (\<lambda>col. truthy (getProp sel col)) (Object_keys sel))) @
          '' FROM '' @ tableName tbl @
          wherePart @
          (case limit opts of
             None \<Rightarrow> []
           | Some n \<Rightarrow> if truthy (JNumber n) then '' LIMIT '' @ toString rt (JNumber n) else []) @
          (case skip opts of
             None \<Rightarrow> []
           | Some n \<Rightarrow> if truthy (JNumber n) then '' OFFSET '' @ toString rt (JNumber n) else [])))"

text \<open>\<^verbatim>\<open>Table.select\<close> (class.ts, 1928-1950).\<close>

definition Table_select ::
  "runtime \<Rightarrow> 'db engine \<Rightarrow> table \<Rightarrow> options \<Rightarrow> 'db session
     \<Rightarrow> (error + js_record list) \<times> 'db session" where
  "Table_select rt eng tbl opts s =
     (case validateSelectOptions opts of
        Inl e \<Rightarrow> (Inl e, s)
      | Inr _ \<Rightarrow>
          if emptyOR (where opts) then (Inr [], s)
          else
            (case buildSelectQuery rt tbl opts of
               Inl e \<Rightarrow> (Inl e, s)
             | Inr queryString \<Rightarrow>
                 (case extractQueryParameters rt opts of
                    Inl e \<Rightarrow> (Inl e, s)
                  | Inr params \<Rightarrow>
                      executeWithErrorWrapper (selectRows rt eng tbl queryString params) s)))"

text \<open>\<^verbatim>\<open>Table.update\<close> (class.ts, 2197-2215) and \<^verbatim>\<open>Table.delete\<close> (class.ts, 2265-2284).
  After the validation both \<^verbatim>\<open>values\<close> and \<^verbatim>\<open>where\<close> are present: the branches for an
  absent one are not reached.\<close>

definition updateQuery :: "table \<Rightarrow> js_record \<Rightarrow> string \<Rightarrow> string" where
  "updateQuery tbl vals wc =
     ''UPDATE '' @ tableName tbl @ '' SET '' @
     join '', '' (map (conditionText ''='') (Object_keys vals)) @ '' '' @ wc"

definition Table_update ::
  "runtime \<Rightarrow> 'db engine \<Rightarrow> table \<Rightarrow> options \<Rightarrow> 'db session \<Rightarrow> (error + unit) \<times> 'db session" where
  "Table_update rt eng tbl opts s =
     (case validateUpdateOptions opts of
        Inl e \<Rightarrow> (Inl e, s)
      | Inr _ \<Rightarrow>
          (case (values opts, where opts) of
             (Some vals, Some w) \<Rightarrow>
               (case buildWhereClause w of
                  Inl e \<Rightarrow> (Inl e, s)
                | Inr wc \<Rightarrow>
                    (case extractWhereParameters rt w of
                       Inl e \<Rightarrow> (Inl e, s)
                     | Inr whereParams \<Rightarrow>
                         executeWithErrorWrapper
                           (runStatement eng (updateQuery tbl vals wc)
                              (parseParameters rt (Object_values vals) @ whereParams)) s))
           | _ \<Rightarrow> (Inl TypeError, s)))"

definition Table_delete ::
  "runtime \<Rightarrow> 'db engine \<Rightarrow> table \<Rightarrow> options \<Rightarrow> 'db session \<Rightarrow> (error + unit) \<times> 'db session" where
  "Table_delete rt eng tbl opts s =
     (case validateDeleteOptions opts of
        Inl e \<Rightarrow> (Inl e, s)
      | Inr _ \<Rightarrow>
          if emptyOR (where opts) then (Inr (), s)
          else
            (case where opts of
               Some w \<Rightarrow>
                 (case buildWhereClause w of
                    Inl e \<Rightarrow> (Inl e, s)
                  | Inr wc \<Rightarrow>
                      (case extractWhereParameters rt w of
                         Inl e \<Rightarrow> (Inl e, s)
                       | Inr params \<Rightarrow>
                           executeWithErrorWrapper
                             (runStatement eng (''DELETE FROM '' @ tableName tbl @ '' '' @ wc)
                                params) s))
             | None \<Rightarrow> (Inl TypeError, s)))"

text \<open>\<^verbatim>\<open>Table.count\<close> (class.ts, 2326-2351).  \<^verbatim>\<open>get\<close> yields the first row, and the read
  \<^verbatim>\<open>result.count\<close>, made after the wrapper has returned, throws when there is none.
  \<open>countQuery\<close> is the text and the parameters that \<^verbatim>\<open>count\<close> and \<^verbatim>\<open>paginate\<close> build in
  the same way.\<close>

definition countQuery :: "runtime \<Rightarrow> table \<Rightarrow> js_record option \<Rightarrow> error + string \<times> js_value list" where
  "countQuery rt tbl w =
     (case w of
        None \<Rightarrow> Inr (''SELECT COUNT(*) as count FROM '' @ tableName tbl, [])
      | Some r \<Rightarrow>
          bindE (buildWhereClause r) (\<lambda>wc.
          bindE (extractWhereParameters rt r) (\<lambda>params.
            Inr (''SELECT COUNT(*) as count FROM '' @ tableName tbl @ '' '' @ wc, params))))"

definition Table_count ::
  "runtime \<Rightarrow> 'db engine \<Rightarrow> table \<Rightarrow> options \<Rightarrow> 'db session \<Rightarrow> (error + js_value) \<times> 'db session" where
  "Table_count rt eng tbl opts s =
     (if emptyOR (where opts) then (Inr (JNumber (Finite 0)), s)
      else
        (case countQuery rt tbl (where opts) of
           Inl e \<Rightarrow> (Inl e, s)
         | Inr (queryString, params) \<Rightarrow>
             (case executeWithErrorWrapper (query eng queryString params) s of
                (Inl e, s') \<Rightarrow> (Inl e, s')
              | (Inr rows, s') \<Rightarrow> (firstCount rows, s'))))"

text \<open>\<^verbatim>\<open>Table.paginate\<close> (class.ts, 2704-2767).  The page number and the page size are
  integers.  \<open>divide_ceil total pageSize\<close> is \<^verbatim>\<open>Math.ceil(total / pageSize)\<close> for the finite
  number that \<^verbatim>\<open>COUNT(*)\<close> yields; for any other value of \<open>total\<close> the model has \<open>NaN\<close>.
  \<open>pageQuery\<close> is the text of the second statement, built from the text of
  \<^verbatim>\<open>buildSelectQuery\<close>.\<close>

fun divide_ceil :: "js_value \<Rightarrow> int \<Rightarrow> js_number" where
  "divide_ceil (JNumber (Finite t)) p =
     (if p = 0 then (if t > 0 then PosInfinity else if t < 0 then NegInfinity else NaN)
      else Finite (of_int \<lceil>t / of_int p\<rceil>))"
| "divide_ceil v p = NaN"

record page_result =
  data :: "js_record list"
  total :: js_value
  page :: int
  pageSize :: int
  totalPages :: js_number

definition pageQuery ::
  "runtime \<Rightarrow> string \<Rightarrow> (string \<times> string option) option \<Rightarrow> int \<Rightarrow> int \<Rightarrow> string" where
  "pageQuery rt q0 orderBy pgSize offset =
     q0 @
     (case orderBy of
        None \<Rightarrow> []
      | Some (col, direction) \<Rightarrow>
          '' ORDER BY '' @ col @ '' '' @
          (case direction of
             None \<Rightarrow> ''ASC''
           | Some d \<Rightarrow> if d = [] then ''ASC'' else d)) @
     '' LIMIT '' @ toString rt (JNumber (Finite (of_int pgSize))) @
     '' OFFSET '' @ toString rt (JNumber (Finite (of_int offset)))"

definition Table_paginate ::
  "runtime \<Rightarrow> 'db engine \<Rightarrow> table \<Rightarrow> int \<Rightarrow> int \<Rightarrow> js_record option \<Rightarrow> js_record option
     \<Rightarrow> (string \<times> string option) option \<Rightarrow> 'db session
     \<Rightarrow> (error + page_result) \<times> 'db session" where
  "Table_paginate rt eng tbl pg pgSize whereClause selectClause orderBy s =
     (case countQuery rt tbl whereClause of
        Inl e \<Rightarrow> (Inl e, s)
      | Inr (countQ, countParams) \<Rightarrow>
          (case executeWithErrorWrapper (countRow eng countQ countParams) s of
             (Inl e, s1) \<Rightarrow> (Inl e, s1)
           | (Inr tot, s1) \<Rightarrow>
               (let selectOptions = \<lparr>where = whereClause, select = selectClause,
                                      limit = None, skip = None, values = None\<rparr>
                in case buildSelectQuery rt tbl selectOptions of
                     Inl e \<Rightarrow> (Inl e, s1)
                   | Inr q0 \<Rightarrow>
                       (case extractQueryParameters rt selectOptions of
                          Inl e \<Rightarrow> (Inl e, s1)
                        | Inr params \<Rightarrow>
                            (case executeWithErrorWrapper
                                    (selectRows rt eng tbl
                                       (pageQuery rt q0 orderBy pgSize ((pg - 1) * pgSize))
                                       params) s1 of
                               (Inl e, s2) \<Rightarrow> (Inl e, s2)
                             | (Inr rows, s2) \<Rightarrow>
                                 (Inr \<lparr>data = rows, total = tot, page = pg, pageSize = pgSize,
                                       totalPages = divide_ceil tot pgSize\<rparr>, s2))))))"

section \<open>Table facade: insertion\<close>

text \<open>The loop \<^verbatim>\<open>for (const record of records) { formatRecordValuesForInsert(record, columns);
  stmt.run(...) }\<close> inside a transaction: the vectors bound for the records before the
  first one whose formatting throws, and that error if there is one.\<close>

fun formatAll :: "runtime \<Rightarrow> string list \<Rightarrow> js_value list \<Rightarrow> js_value list list \<times> error option" where
  "formatAll rt cols [] = ([], None)"
| "formatAll rt cols (record # records) =
     (case formatRecordValuesForInsert rt record cols of
        Inl e \<Rightarrow> ([], Some e)
      | Inr formattedValues \<Rightarrow>
          (case formatAll rt cols records of
             (vs, failure) \<Rightarrow> (formattedValues # vs, failure)))"

text \<open>The callback that \<^verbatim>\<open>insert\<close> and \<^verbatim>\<open>upsert\<close> hand to the wrapper: prepare, run the
  transaction, finalize.\<close>

definition runTransaction ::
  "'db engine \<Rightarrow> string \<Rightarrow> js_value list list \<times> error option \<Rightarrow> 'db session
     \<Rightarrow> (error + unit) \<times> 'db session" where
  "runTransaction eng q bindings s =
     (case transact eng q bindings s of
        ((rows, Some e), s') \<Rightarrow> (Inl e, s')
      | ((rows, None), s') \<Rightarrow> (Inr (), s'))"

text \<open>The text \<^verbatim>\<open>INSERT INTO t (c1, c2) VALUES (?, ?)\<close> of \<^verbatim>\<open>insert\<close> and \<^verbatim>\<open>bulkInsert\<close>.\<close>

definition insertQuery :: "table \<Rightarrow> string list \<Rightarrow> string" where
  "insertQuery tbl cols =
     ''INSERT INTO '' @ tableName tbl @ '' ('' @ join '', '' cols @ '') VALUES ('' @
     join '', '' (map (\<lambda>c. ''?'') cols) @ '')''"

text \<open>\<^verbatim>\<open>Table.insert\<close> (class.ts, 1989-2012).  \<^verbatim>\<open>Object.keys(sampleRecord)\<close> is evaluated
  before the wrapper is entered.\<close>

definition Table_insert ::
  "runtime \<Rightarrow> 'db engine \<Rightarrow> table \<Rightarrow> js_value list \<Rightarrow> 'db session \<Rightarrow> (error + unit) \<times> 'db session" where
  "Table_insert rt eng tbl records s =
     (case records of
        [] \<Rightarrow> (Inl NoRecordsForInsertion, s)
      | sampleRecord # _ \<Rightarrow>
          (case Object_keys_of sampleRecord of
             Inl e \<Rightarrow> (Inl e, s)
           | Inr cols \<Rightarrow>
               executeWithErrorWrapper
                 (runTransaction eng (insertQuery tbl cols) (formatAll rt cols records)) s))"

text \<open>\<^verbatim>\<open>Table.upsert\<close> (class.ts, 2111-2149); the text of the statement is a template
  literal that spans four lines.\<close>

definition upsertQuery :: "table \<Rightarrow> string list \<Rightarrow> string list \<Rightarrow> string list option \<Rightarrow> string" where
  "upsertQuery tbl cols conflictColumns updateColumns =
     [CHR 0x0A] @ ''      INSERT INTO '' @ tableName tbl @ '' ('' @ join '', '' cols @ '')'' @
     [CHR 0x0A] @ ''      VALUES ('' @ join '', '' (map (\<lambda>c. ''?'') cols) @ '')'' @
     [CHR 0x0A] @ ''      ON CONFLICT('' @ join '', '' conflictColumns @ '') DO UPDATE SET '' @
     (case updateColumns of
        Some cols \<Rightarrow> join '', '' (map (\<lambda>col. col @ '' = excluded.'' @ col) cols)
      | None \<Rightarrow> join '', '' (map (\<lambda>col. col @ '' = excluded.'' @ col)
                          (filter (\<lambda>col. col \<notin> set conflictColumns) cols))) @
     [CHR 0x0A] @ ''    ''"

definition Table_upsert ::
  "runtime \<Rightarrow> 'db engine \<Rightarrow> table \<Rightarrow> js_value list \<Rightarrow> string list \<Rightarrow> string list option
     \<Rightarrow> 'db session \<Rightarrow> (error + unit) \<times> 'db session" where
  "Table_upsert rt eng tbl records conflictColumns updateColumns s =
     (case records of
        [] \<Rightarrow> (Inl NoRecordsForUpsert, s)
      | sampleRecord # _ \<Rightarrow>
          (case Object_keys_of sampleRecord of
             Inl e \<Rightarrow> (Inl e, s)
           | Inr cols \<Rightarrow>
               executeWithErrorWrapper
                 (runTransaction eng (upsertQuery tbl cols conflictColumns updateColumns)
                    (formatAll rt cols records)) s))"

text \<open>\<^verbatim>\<open>Table.chunk\<close> (class.ts, 3100-3106).  The size is an integer.  The loop
  \<^verbatim>\<open>for (let i = 0; i < array.length; i += size)\<close> does not end when the size is not
  positive and the array is not empty: the result is none then.  \<open>slice\<close> is
  \<^verbatim>\<open>Array.prototype.slice\<close>, whose negative arguments count from the end.\<close>

definition slice :: "'a list \<Rightarrow> int \<Rightarrow> int \<Rightarrow> 'a list" where
  "slice array start stop =
     (let len = int (length array);
          k = (if start < 0 then max (len + start) 0 else min start len);
          final = (if stop < 0 then max (len + stop) 0 else min stop len)
      in take (nat (final - k)) (drop (nat k) array))"

partial_function (option) chunk_from :: "'a list \<Rightarrow> int \<Rightarrow> int \<Rightarrow> 'a list list \<Rightarrow> 'a list list option" where
  "chunk_from array sz i chunks =
     (if i < int (length array)
      then chunk_from array sz (i + sz) (chunks @ [slice array i (i + sz)])
      else Some chunks)"

definition chunk :: "'a list \<Rightarrow> int \<Rightarrow> 'a list list option" where
  "chunk array sz = chunk_from array sz 0 []"

text \<open>\<^verbatim>\<open>Table.bulkInsert\<close> (class.ts, 2046-2075).  The array \<^verbatim>\<open>insertedIds\<close> is declared
  outside the callback of the wrapper, so it is part of the state the callback works on
  and keeps what an earlier attempt pushed.  \<open>bulkBatches\<close> is the loop over the batches,
  which an error leaves.\<close>

definition rowIds :: "js_record list \<Rightarrow> js_value list" where
  "rowIds rows = map (\<lambda>result. getProp result ''lastInsertRowid'') rows"

fun bulkBatches ::
  "runtime \<Rightarrow> 'db engine \<Rightarrow> string \<Rightarrow> string list \<Rightarrow> js_value list list
     \<Rightarrow> 'db session \<times> js_value list \<Rightarrow> (error + js_value list) \<times> ('db session \<times> js_value list)" where
  "bulkBatches rt eng q cols [] (s, insertedIds) = (Inr insertedIds, (s, insertedIds))"
| "bulkBatches rt eng q cols (batch # batches) (s, insertedIds) =
     (case transact eng q (formatAll rt cols batch) s of
        ((rows, Some e), s') \<Rightarrow> (Inl e, (s', insertedIds @ rowIds rows))
      | ((rows, None), s') \<Rightarrow>
          bulkBatches rt eng q cols batches (s', insertedIds @ rowIds rows))"

definition Table_bulkInsert ::
  "runtime \<Rightarrow> 'db engine \<Rightarrow> table \<Rightarrow> js_value list \<Rightarrow> int \<Rightarrow> 'db session
     \<Rightarrow> ((error + js_value list) \<times> 'db session) option" where
  "Table_bulkInsert rt eng tbl records batchSize s =
     (case records of
        [] \<Rightarrow> Some (Inl NoRecordsForBulkInsertion, s)
      | sampleRecord # _ \<Rightarrow>
          (case chunk records batchSize of
             None \<Rightarrow> None
           | Some batches \<Rightarrow>
               (case executeWithErrorWrapper
                       (\<lambda>(s, insertedIds).
                          case Object_keys_of sampleRecord of
                            Inl e \<Rightarrow> (Inl e, (s, insertedIds))
                          | Inr cols \<Rightarrow>
                              bulkBatches rt eng (insertQuery tbl cols) cols batches
                                (s, insertedIds))
                       (s, []) of
                  (result, (s', insertedIds)) \<Rightarrow> Some (result, s'))))"

section \<open>Table facade: import from JSON\<close>

text \<open>\<^verbatim>\<open>Table.importFromJson\<close> (class.ts, 3372-3428).  The strategy defaults to
  \<^verbatim>\<open>'ignore'\<close> and the batch size to 1000; the option \<^verbatim>\<open>validateSchema\<close> only decides
  whether a warning is printed.  An entry of \<^verbatim>\<open>stats.errors\<close> is the text
  \<^verbatim>\<open>`Batch error: ${error}`\<close> or \<^verbatim>\<open>`Import failed: ${error}`\<close>: the constructor says which,
  and holds the error.\<close>

datatype conflict_resolution = Replace | Ignore | Fail

datatype import_message = BatchError error | ImportFailed error

record import_stats =
  imported :: nat
  skipped :: nat
  errors :: "import_message list"

text \<open>The body of the inner \<^verbatim>\<open>try\<close>: one batch, by \<^verbatim>\<open>upsert\<close> on the first primary
  column under \<^verbatim>\<open>'replace'\<close> when the schema has one with a non-empty name, by \<^verbatim>\<open>insert\<close>
  otherwise.\<close>

definition importBatch ::
  "runtime \<Rightarrow> 'db engine \<Rightarrow> table \<Rightarrow> conflict_resolution \<Rightarrow> js_value list \<Rightarrow> 'db session
     \<Rightarrow> (error + unit) \<times> 'db session" where
  "importBatch rt eng tbl conflictResolution batch s =
     (if conflictResolution = Replace then
        (case find primary (schema tbl) of
           Some col \<Rightarrow>
             if column.name col \<noteq> [] then Table_upsert rt eng tbl batch [column.name col] None s
             else Table_insert rt eng tbl batch s
         | None \<Rightarrow> Table_insert rt eng tbl batch s)
      else Table_insert rt eng tbl batch s)"

text \<open>The loop over the batches with its \<^verbatim>\<open>catch\<close>: under \<^verbatim>\<open>'fail'\<close> the error is thrown
  again and leaves the loop (the second component of the result), otherwise it is
  recorded and the loop goes on.\<close>

fun importBatches ::
  "runtime \<Rightarrow> 'db engine \<Rightarrow> table \<Rightarrow> conflict_resolution \<Rightarrow> js_value list list
     \<Rightarrow> import_stats \<Rightarrow> 'db session \<Rightarrow> (import_stats \<times> error option) \<times> 'db session" where
  "importBatches rt eng tbl conflictResolution [] stats s = ((stats, None), s)"
| "importBatches rt eng tbl conflictResolution (batch # batches) stats s =
     (case importBatch rt eng tbl conflictResolution batch s of
        (Inr _, s') \<Rightarrow>
          importBatches rt eng tbl conflictResolution batches
            (stats\<lparr>imported := imported stats + length batch\<rparr>) s'
      | (Inl e, s') \<Rightarrow>
          if conflictResolution = Fail then ((stats, Some e), s')
          else importBatches rt eng tbl conflictResolution batches
                 (stats\<lparr>errors := errors stats @ [BatchError e],
                        skipped := skipped stats + length batch\<rparr>) s')"

text \<open>The statements of the outer \<^verbatim>\<open>try\<close> before the loop: the array \<^verbatim>\<open>data.data\<close>, or
  the error thrown.\<close>

definition importData :: "runtime \<Rightarrow> js_value \<Rightarrow> error + js_value list" where
  "importData rt jsonData =
     bindE (case jsonData of
              JString text \<Rightarrow>
                (case JSON_parse rt text of None \<Rightarrow> Inl SyntaxError | Some parsed \<Rightarrow> Inr parsed)
            | _ \<Rightarrow> Inr jsonData)
       (\<lambda>parsed. bindE (read parsed ''data'')
          (\<lambda>d. if \<not> truthy d \<or> \<not> isArray d then Inl InvalidJsonFormat
                else Inr (values_of d)))"

text \<open>The whole function: whatever is thrown inside the outer \<^verbatim>\<open>try\<close>, the outer
  \<^verbatim>\<open>catch\<close> records it and returns the statistics.  The result is none when \<^verbatim>\<open>chunk\<close>
  does not return.\<close>

definition Table_importFromJson ::
  "runtime \<Rightarrow> 'db engine \<Rightarrow> table \<Rightarrow> js_value \<Rightarrow> conflict_resolution option \<Rightarrow> int option
     \<Rightarrow> 'db session \<Rightarrow> (import_stats \<times> 'db session) option" where
  "Table_importFromJson rt eng tbl jsonData conflictResolution batchSize s =
     (let stats = \<lparr>imported = 0, skipped = 0, errors = []\<rparr> in
      case importData rt jsonData of
        Inl e \<Rightarrow> Some (stats\<lparr>errors := errors stats @ [ImportFailed e]\<rparr>, s)
      | Inr records \<Rightarrow>
          (case chunk records (case batchSize of None \<Rightarrow> 1000 | Some n \<Rightarrow> n) of
             None \<Rightarrow> None
           | Some batches \<Rightarrow>
               (case importBatches rt eng tbl
                       (case conflictResolution of None \<Rightarrow> Ignore | Some c \<Rightarrow> c)
                       batches stats s of
                  ((stats', None), s') \<Rightarrow> Some (stats', s')
                | ((stats', Some e), s') \<Rightarrow>
                    Some (stats'\<lparr>errors := errors stats' @ [ImportFailed e]\<rparr>, s'))))"

section \<open>Connection pool\<close>

text \<open>
  \<^verbatim>\<open>AdvancedConnectionPool\<close> (class.ts, 67-472).  The map \<^verbatim>\<open>connections\<close> is a list of
  entries in insertion order.  A waiter is the entry that \<^verbatim>\<open>acquire\<close> pushes on
  \<^verbatim>\<open>waitingQueue\<close>; its \<^verbatim>\<open>resolve\<close> function is an object of its own for every promise and the
  code finds a waiter by it, so the model numbers the promises that \<^verbatim>\<open>acquire\<close> creates
  (\<open>promises\<close> counts them) and a waiter holds the number of its promise.  The clock
  (\<^verbatim>\<open>Date.now()\<close>), the identifier of a new connection and whether the engine opens or
  answers are inputs of the operations; an operation reads the clock once.  The database
  handle of a connection has no part in the state of the pool, nor have the two caches:
  they are left out.
\<close>

record pool_config =
  maxConnections :: int
  minConnections :: int
  acquireTimeout :: int
  idleTimeout :: int
  reapInterval :: int
  maxConnectionAge :: int

record pooled_connection =
  createdAt :: int
  lastUsed :: int
  inUse :: bool
  queryCount :: int
  errorCount :: int

record waiter =
  resolver :: nat
  timestamp :: int

record pool_stats =
  totalConnections :: int
  activeConnections :: int
  idleConnections :: int
  waitingClients :: int
  totalCreated :: int
  totalDestroyed :: int
  totalAcquired :: int
  totalReleased :: int
  totalErrors :: int
  averageAcquireTime :: real
  cacheHitRate :: real

record pool =
  config :: pool_config
  connections :: "(string \<times> pooled_connection) list"
  availableConnections :: "string list"
  waitingQueue :: "waiter list"
  stats :: pool_stats
  acquireTimes :: "int list"
  cacheHits :: int
  cacheRequests :: int
  promises :: nat

text \<open>\<^verbatim>\<open>Map.prototype.set\<close> and \<^verbatim>\<open>Map.prototype.delete\<close> on the list of entries.\<close>

fun map_set :: "'k \<Rightarrow> 'v \<Rightarrow> ('k \<times> 'v) list \<Rightarrow> ('k \<times> 'v) list" where
  "map_set k v [] = [(k, v)]"
| "map_set k v ((k', v') # rest) =
     (if k' = k then (k, v) # rest else (k', v') # map_set k v rest)"

definition map_delete :: "'k \<Rightarrow> ('k \<times> 'v) list \<Rightarrow> ('k \<times> 'v) list" where
  "map_delete k m = filter (\<lambda>entry. fst entry \<noteq> k) m"

text \<open>The constructor (class.ts, 81-121): the pool before \<^verbatim>\<open>initialize\<close>.\<close>

definition new_pool :: "pool_config \<Rightarrow> pool" where
  "new_pool cfg =
     \<lparr>config = cfg, connections = [], availableConnections = [], waitingQueue = [],
      stats = \<lparr>totalConnections = 0, activeConnections = 0, idleConnections = 0,
               waitingClients = 0, totalCreated = 0, totalDestroyed = 0, totalAcquired = 0,
               totalReleased = 0, totalErrors = 0, averageAcquireTime = 0, cacheHitRate = 0\<rparr>,
      acquireTimes = [], cacheHits = 0, cacheRequests = 0, promises = 0\<rparr>"

text \<open>\<^verbatim>\<open>recordAcquireTime\<close> and \<^verbatim>\<open>updateStats\<close> (class.ts, 394-414).\<close>

definition recordAcquireTime :: "int \<Rightarrow> pool \<Rightarrow> pool" where
  "recordAcquireTime time p =
     (let times = acquireTimes p @ [time]
      in p\<lparr>acquireTimes := (if length times > 100 then tl times else times)\<rparr>)"

definition updateStats :: "pool \<Rightarrow> pool" where
  "updateStats p =
     (let total = int (length (connections p));
          active = int (length (filter inUse (map snd (connections p))))
      in p\<lparr>stats := (stats p)\<lparr>
           totalConnections := total,
           activeConnections := active,
           idleConnections := total - active,
           waitingClients := int (length (waitingQueue p)),
           averageAcquireTime :=
             (if length (acquireTimes p) > 0
              then of_int (sum_list (acquireTimes p)) / of_nat (length (acquireTimes p))
              else averageAcquireTime (stats p)),
           cacheHitRate :=
             (if cacheRequests p > 0 then of_int (cacheHits p) / of_int (cacheRequests p)
              else cacheHitRate (stats p))\<rparr>\<rparr>)"

text \<open>\<^verbatim>\<open>createConnection\<close> (class.ts, 156-188), once the engine has opened the database;
  \<^verbatim>\<open>destroyConnection\<close> (class.ts, 279-303).\<close>

definition createConnection :: "string \<Rightarrow> int \<Rightarrow> pool \<Rightarrow> pool" where
  "createConnection cid now p =
     updateStats (p\<lparr>
       connections := map_set cid \<lparr>createdAt = now, lastUsed = now, inUse = False,
                                   queryCount = 0, errorCount = 0\<rparr> (connections p),
       availableConnections := availableConnections p @ [cid],
       stats := (stats p)\<lparr>totalCreated := totalCreated (stats p) + 1\<rparr>\<rparr>)"

definition destroyConnection :: "string \<Rightarrow> pool \<Rightarrow> pool" where
  "destroyConnection cid p =
     (case map_of (connections p) cid of
        None \<Rightarrow> p
      | Some connection \<Rightarrow>
          updateStats (p\<lparr>
            connections := map_delete cid (connections p),
            availableConnections := remove1 cid (availableConnections p),
            stats := (stats p)\<lparr>totalDestroyed := totalDestroyed (stats p) + 1\<rparr>\<rparr>))"

text \<open>What an operation does to the promises of \<^verbatim>\<open>acquire\<close>: a waiter is queued, a queued
  waiter is resolved with a connection by \<^verbatim>\<open>release\<close>, rejected by its timer, or rejected
  by \<^verbatim>\<open>close\<close>.\<close>

datatype event =
    Enqueued nat
  | ResolvedWaiter nat string
  | TimedOut nat
  | PoolClosing nat

text \<open>\<^verbatim>\<open>acquire\<close> (class.ts, 190-247) up to the point where it returns, suspends or
  queues.  \<open>Resolved c\<close>: the promise is resolved with the idle connection \<open>c\<close>.
  \<open>Stuck\<close>: the identifier taken from \<^verbatim>\<open>availableConnections\<close> is not in the map, the write
  to \<^verbatim>\<open>connection.inUse\<close> throws inside the executor and the promise is never settled.
  \<open>Awaiting c\<close>: the connection \<open>c\<close> has been created and the executor is suspended at
  \<^verbatim>\<open>await\<close>; \<open>acquireResume\<close> is the rest of that branch.  \<open>Rejected\<close>: the engine did not
  open the database.  \<open>Queued n\<close>: the pool is full and promise \<open>n\<close> waits.\<close>

datatype acquire_outcome = Resolved string | Stuck | Awaiting string | Rejected | Queued nat

definition acquire :: "bool \<Rightarrow> string \<Rightarrow> int \<Rightarrow> pool \<Rightarrow> (acquire_outcome \<times> event list) \<times> pool" where
  "acquire opens newId now p0 =
     (let p = p0\<lparr>promises := promises p0 + 1\<rparr> in
      case availableConnections p of
        connectionId # rest \<Rightarrow>
          (case map_of (connections p) connectionId of
             None \<Rightarrow> ((Stuck, []), p\<lparr>availableConnections := rest\<rparr>)
           | Some connection \<Rightarrow>
               ((Resolved connectionId, []),
                updateStats (recordAcquireTime 0 (p\<lparr>
                  availableConnections := rest,
                  connections := map_set connectionId (connection\<lparr>inUse := True, lastUsed := now\<rparr>)
                                   (connections p),
                  stats := (stats p)\<lparr>totalAcquired := totalAcquired (stats p) + 1\<rparr>\<rparr>))))
      | [] \<Rightarrow>
          if int (length (connections p)) < maxConnections (config p) then
            (if opens then ((Awaiting newId, []), createConnection newId now p)
             else ((Rejected, []),
                   p\<lparr>stats := (stats p)\<lparr>totalErrors := totalErrors (stats p) + 1\<rparr>\<rparr>))
          else
            ((Queued (promises p0), [Enqueued (promises p0)]),
             updateStats (p\<lparr>waitingQueue := waitingQueue p
                              @ [\<lparr>resolver = promises p0, timestamp = now\<rparr>]\<rparr>)))"

definition acquireResume :: "string \<Rightarrow> int \<Rightarrow> int \<Rightarrow> pool \<Rightarrow> pool" where
  "acquireResume cid startTime now p =
     updateStats (recordAcquireTime (now - startTime) (p\<lparr>
       connections := (case map_of (connections p) cid of
                         None \<Rightarrow> connections p
                       | Some connection \<Rightarrow>
                           map_set cid (connection\<lparr>inUse := True\<rparr>) (connections p)),
       availableConnections := butlast (availableConnections p),
       stats := (stats p)\<lparr>totalAcquired := totalAcquired (stats p) + 1\<rparr>\<rparr>))"

text \<open>The callback of the timer that \<^verbatim>\<open>acquire\<close> starts for a queued promise
  (class.ts, 238-245).\<close>

fun remove_waiter :: "nat \<Rightarrow> waiter list \<Rightarrow> waiter list" where
  "remove_waiter n [] = []"
| "remove_waiter n (w # ws) = (if resolver w = n then ws else w # remove_waiter n ws)"

definition acquireTimer :: "nat \<Rightarrow> pool \<Rightarrow> event list \<times> pool" where
  "acquireTimer n p =
     (if list_ex (\<lambda>w. resolver w = n) (waitingQueue p)
      then ([TimedOut n], updateStats (p\<lparr>waitingQueue := remove_waiter n (waitingQueue p)\<rparr>))
      else ([], p))"

text \<open>\<^verbatim>\<open>release\<close> (class.ts, 249-277), for the connection object that the map holds under
  the identifier.\<close>

definition release :: "string \<Rightarrow> int \<Rightarrow> pool \<Rightarrow> event list \<times> pool" where
  "release cid now p =
     (case map_of (connections p) cid of
        None \<Rightarrow> ([], p)
      | Some connection \<Rightarrow>
          (let p1 = p\<lparr>connections := map_set cid (connection\<lparr>inUse := False, lastUsed := now\<rparr>)
                                        (connections p),
                      stats := (stats p)\<lparr>totalReleased := totalReleased (stats p) + 1\<rparr>\<rparr>
           in if now - createdAt connection > maxConnectionAge (config p)
              then ([], destroyConnection cid p1)
              else
                (case waitingQueue p1 of
                   w # rest \<Rightarrow>
                     ([ResolvedWaiter (resolver w) cid],
                      updateStats (recordAcquireTime (now - timestamp w) (p1\<lparr>
                        waitingQueue := rest,
                        connections := map_set cid (connection\<lparr>inUse := True, lastUsed := now\<rparr>)
                                         (connections p1),
                        stats := (stats p1)\<lparr>totalAcquired := totalAcquired (stats p1) + 1\<rparr>\<rparr>)))
                 | [] \<Rightarrow>
                     ([], updateStats (p1\<lparr>availableConnections :=
                                            availableConnections p1 @ [cid]\<rparr>)))))"

text \<open>\<^verbatim>\<open>cleanupIdleConnections\<close> and \<^verbatim>\<open>performHealthChecks\<close> (class.ts, 305-345); \<open>failing\<close>
  are the connections whose probe \<^verbatim>\<open>SELECT 1\<close> throws.\<close>

definition cleanupIdleConnections :: "int \<Rightarrow> pool \<Rightarrow> pool" where
  "cleanupIdleConnections now p =
     fold destroyConnection
       (map fst (filter (\<lambda>(cid, connection).
                           \<not> inUse connection
                           \<and> now - lastUsed connection > idleTimeout (config p)
                           \<and> int (length (connections p)) > minConnections (config p))
                        (connections p)))
       p"

definition performHealthChecks :: "string list \<Rightarrow> pool \<Rightarrow> pool" where
  "performHealthChecks failing p =
     fold destroyConnection
       (map fst (filter (\<lambda>(cid, connection). \<not> inUse connection \<and> cid \<in> set failing)
                        (connections p)))
       p"

text \<open>\<^verbatim>\<open>getStats\<close> and \<^verbatim>\<open>close\<close> (class.ts, 416-464).\<close>

definition getStats :: "pool \<Rightarrow> pool_stats \<times> pool" where
  "getStats p = (stats (updateStats p), updateStats p)"

definition close :: "pool \<Rightarrow> event list \<times> pool" where
  "close p =
     (map (\<lambda>w. PoolClosing (resolver w)) (waitingQueue p),
      p\<lparr>waitingQueue := [], connections := [], availableConnections := []\<rparr>)"

text \<open>The operations as a datatype, and a run of the pool: the events in the order they
  happen.\<close>

datatype pool_op =
    Create string int
  | Acquire bool string int
  | AcquireResume string int int
  | AcquireTimer nat
  | Release string int
  | Destroy string
  | Cleanup int
  | HealthChecks "string list"
  | GetStats
  | Close

fun step :: "pool_op \<Rightarrow> pool \<Rightarrow> event list \<times> pool" where
  "step (Create cid now) p = ([], createConnection cid now p)"
| "step (Acquire opens newId now) p = (snd (fst (acquire opens newId now p)), snd (acquire opens newId now p))"
| "step (AcquireResume cid startTime now) p = ([], acquireResume cid startTime now p)"
| "step (AcquireTimer n) p = acquireTimer n p"
| "step (Release cid now) p = release cid now p"
| "step (Destroy cid) p = ([], destroyConnection cid p)"
| "step (Cleanup now) p = ([], cleanupIdleConnections now p)"
| "step (HealthChecks failing) p = ([], performHealthChecks failing p)"
| "step GetStats p = ([], snd (getStats p))"
| "step Close p = close p"

fun run :: "pool_op list \<Rightarrow> pool \<Rightarrow> event list \<times> pool" where
  "run [] p = ([], p)"
| "run (op # ops) p =
     (case step op p of
        (es, p') \<Rightarrow> (case run ops p' of (es', p'') \<Rightarrow> (es @ es', p'')))"

section \<open>Properties, as the specification words them\<close>

text \<open>A predicate with no meaningful condition: the empty object, or an object whose keys
  are all recognized operator keys, each with an empty operand (an object without
  properties or an array without elements).\<close>

definition no_meaningful_condition :: "js_record \<Rightarrow> bool" where
  "no_meaningful_condition w \<longleftrightarrow>
     list_all (\<lambda>(k, v). k \<in> set operator_keys \<and> (v = JObject [] \<or> v = JArray [])) w"

text \<open>The plan of a compiled where clause: its clauses in the order of emission, every
  placeholder together with the value bound to it.  An atom \<open>Atom k op v\<close> is the text
  \<^verbatim>\<open>k op ?\<close> with \<open>v\<close> for its placeholder; a clause is one atom, or the parenthesized
  disjunction built from \<^verbatim>\<open>OR\<close>, whose elements are conjunctions of atoms.\<close>

datatype atom = Atom string string js_value

datatype clause = Single atom | Disjunction "atom list list"

fun render_atom :: "atom \<Rightarrow> string" where
  "render_atom (Atom k op v) = conditionText op k"

fun atom_value :: "atom \<Rightarrow> js_value" where
  "atom_value (Atom k op v) = v"

fun atom_operator :: "atom \<Rightarrow> string" where
  "atom_operator (Atom k op v) = op"

fun render_clause :: "clause \<Rightarrow> string" where
  "render_clause (Single a) = render_atom a"
| "render_clause (Disjunction groups) =
     ''('' @ join '' OR '' (map (\<lambda>g. join '' AND '' (map render_atom g)) groups) @ '')''"

fun clause_values :: "clause \<Rightarrow> js_value list" where
  "clause_values (Single a) = [atom_value a]"
| "clause_values (Disjunction groups) = map atom_value (concat groups)"

definition atoms_of :: "string \<Rightarrow> js_value \<Rightarrow> atom list" where
  "atoms_of op v = map (\<lambda>(key, x). Atom key op x) (zip (keys_of v) (values_of v))"

definition operatorAtoms :: "string \<Rightarrow> string \<Rightarrow> js_record \<Rightarrow> atom list" where
  "operatorAtoms k op w =
     (if has_key k w \<and> truthy (getProp w k) then atoms_of op (getProp w k) else [])"

definition orGroup :: "js_value \<Rightarrow> error + atom list" where
  "orGroup condition =
     (if conditionHasLike condition then Inr (atoms_of ''LIKE'' (own condition ''LIKE''))
      else if nullish condition then Inl TypeError
      else Inr (atoms_of ''='' condition))"

definition orClauses :: "js_record \<Rightarrow> error + clause list" where
  "orClauses w =
     (if has_key ''OR'' w \<and> truthy (getProp w ''OR'') \<and> isArray (getProp w ''OR'')
      then bindE (mapE orGroup (values_of (getProp w ''OR''))) (\<lambda>gs. Inr [Disjunction gs])
      else Inr [])"

definition likeClauses :: "js_record \<Rightarrow> clause list" where
  "likeClauses w = map Single (operatorAtoms ''LIKE'' ''LIKE'' w)"

definition comparisonClauses :: "js_record \<Rightarrow> clause list" where
  "comparisonClauses w =
     map Single (operatorAtoms ''greaterThan'' ''>'' w @
                 operatorAtoms ''lessThan'' ''<'' w @
                 operatorAtoms ''notEqual'' ''!='' w @
                 operatorAtoms ''greaterThanOrEqual'' ''>='' w @
                 operatorAtoms ''lessThanOrEqual'' ''<='' w)"

definition equalityClauses :: "js_record \<Rightarrow> clause list" where
  "equalityClauses w = map (\<lambda>key. Single (Atom key ''='' (getProp w key))) (regularFields w)"

definition wherePlan :: "js_record \<Rightarrow> error + clause list" where
  "wherePlan w =
     bindE (orClauses w)
       (\<lambda>ors. Inr (likeClauses w @ comparisonClauses w @ ors @ equalityClauses w))"

text \<open>The place of a clause in the order of emission.  \<open>emitted_rank\<close>: \<^verbatim>\<open>LIKE\<close>, then the
  ordered comparisons, then \<^verbatim>\<open>OR\<close>, then equality.  \<open>specified_rank\<close>: the order in the
  words of the specification, "implicit equality, LIKE, comparisons, OR".\<close>

fun emitted_rank :: "clause \<Rightarrow> nat" where
  "emitted_rank (Single a) =
     (if atom_operator a = ''LIKE'' then 0 else if atom_operator a = ''='' then 3 else 1)"
| "emitted_rank (Disjunction groups) = 2"

fun specified_rank :: "clause \<Rightarrow> nat" where
  "specified_rank (Single a) =
     (if atom_operator a = ''='' then 0 else if atom_operator a = ''LIKE'' then 1 else 2)"
| "specified_rank (Disjunction groups) = 3"

text \<open>The text and the parameters that a plan stands for.\<close>

definition render_plan :: "clause list \<Rightarrow> string" where
  "render_plan plan =
     (if plan = [] then [] else ''WHERE '' @ join '' AND '' (map render_clause plan))"

definition plan_values :: "clause list \<Rightarrow> js_value list" where
  "plan_values plan = concat (map clause_values plan)"

text \<open>The values of a logical column type that the codec is to carry: a number, a
  string, a boolean, a date whose time value is in the range of \<^verbatim>\<open>Date\<close> (or the invalid
  date), and for \<^verbatim>\<open>json\<close> an object or an array that \<^verbatim>\<open>JSON.parse\<close> reads back from its
  \<^verbatim>\<open>JSON.stringify\<close> text.\<close>

fun logical_value :: "runtime \<Rightarrow> column_type \<Rightarrow> js_value \<Rightarrow> bool" where
  "logical_value rt TNumber (JNumber n) = True"
| "logical_value rt TFloat (JNumber n) = True"
| "logical_value rt TString (JString s) = True"
| "logical_value rt TBoolean (JBoolean b) = True"
| "logical_value rt TDate (JDate None) = True"
| "logical_value rt TDate (JDate (Some t)) = (\<bar>t\<bar> \<le> 8640000000000000)"
| "logical_value rt TJson (JObject r) =
     (JSON_parse rt (JSON_stringify rt (JObject r)) = Some (JObject r))"
| "logical_value rt TJson (JArray xs) =
     (JSON_parse rt (JSON_stringify rt (JArray xs)) = Some (JArray xs))"
| "logical_value rt ty v = False"

text \<open>A row of logical values for a table: every key names a column of the schema and
  holds a logical value of that column's type.\<close>

definition logical_row :: "runtime \<Rightarrow> table \<Rightarrow> js_record \<Rightarrow> bool" where
  "logical_row rt tbl row =
     list_all (\<lambda>entry. case find (\<lambda>col. column.name col = fst entry) (schema tbl) of
                         None \<Rightarrow> False
                       | Some col \<Rightarrow> logical_value rt (type col) (snd entry)) row"

text \<open>The requests that an operation adds to a session: \<open>issues_only req s s'\<close> when
  they are the request \<open>req\<close>, once or more (the wrapper runs its callback again after a
  "database is locked" error).\<close>

definition new_requests :: "'db session \<Rightarrow> 'db session \<Rightarrow> request list" where
  "new_requests s s' = drop (length (issued s)) (issued s')"

definition issues_only :: "request \<Rightarrow> 'db session \<Rightarrow> 'db session \<Rightarrow> bool" where
  "issues_only req s s' \<longleftrightarrow> (\<exists>n. issued s' = issued s @ req # replicate n req)"

text \<open>What the property read \<^verbatim>\<open>record[c]\<close> yields for a record (a plain object): its own
  property \<open>c\<close>, else the member \<open>c\<close> of \<^verbatim>\<open>Object.prototype\<close>, which is \<^verbatim>\<open>undefined\<close> when
  there is none.  The vector bound for a record against a list of columns: for each
  column, the encoding of that value.\<close>

definition property_of :: "runtime \<Rightarrow> js_record \<Rightarrow> string \<Rightarrow> js_value" where
  "property_of rt r c = (case map_of r c of Some v \<Rightarrow> v | None \<Rightarrow> Object_prototype rt c)"

definition bound_against :: "runtime \<Rightarrow> string list \<Rightarrow> js_record \<Rightarrow> js_value list" where
  "bound_against rt cols r = map (\<lambda>c. encodeParam rt (property_of rt r c)) cols"

text \<open>The transactions of a bulk insertion that goes through: one for each batch, in
  order, each binding every record of its batch against the columns.\<close>

definition bulk_plan :: "runtime \<Rightarrow> table \<Rightarrow> string list \<Rightarrow> js_record list list \<Rightarrow> request list" where
  "bulk_plan rt tbl cols batches =
     map (\<lambda>batch. Transaction (insertQuery tbl cols) (map (bound_against rt cols) batch) None)
       batches"

text \<open>Pool conservation: the equations between the statistics and the state.\<close>

definition pool_conservation :: "pool \<Rightarrow> bool" where
  "pool_conservation p \<longleftrightarrow>
     totalCreated (stats p) - totalDestroyed (stats p) = int (length (connections p))
     \<and> activeConnections (stats p) + idleConnections (stats p) = totalConnections (stats p)
     \<and> totalConnections (stats p) = int (length (connections p))
     \<and> waitingClients (stats p) = int (length (waitingQueue p))"

text \<open>The identifiers of the connections are distinct; the first of the equations; an
  operation that creates a connection (the engine gives every connection an identifier
  of its own, \<^verbatim>\<open>conn_\<close> followed by the time and a random text) does so under a fresh
  identifier; and a run of operations that create under fresh identifiers and do not
  close the pool.\<close>

definition keys_distinct :: "pool \<Rightarrow> bool" where
  "keys_distinct p \<longleftrightarrow> distinct (map fst (connections p))"

definition created_minus_destroyed :: "pool \<Rightarrow> bool" where
  "created_minus_destroyed p \<longleftrightarrow>
     totalCreated (stats p) - totalDestroyed (stats p) = int (length (connections p))"

fun creates_fresh :: "pool_op \<Rightarrow> pool \<Rightarrow> bool" where
  "creates_fresh (Create cid now) p = (cid \<notin> set (map fst (connections p)))"
| "creates_fresh (Acquire opens newId now) p = (newId \<notin> set (map fst (connections p)))"
| "creates_fresh op p = True"

fun open_run :: "pool_op list \<Rightarrow> pool \<Rightarrow> bool" where
  "open_run [] p = True"
| "open_run (op # ops) p =
     (op \<noteq> Close \<and> creates_fresh op p \<and> open_run ops (snd (step op p)))"

text \<open>Fairness: the waiters queued, resolved, timed out and rejected by \<^verbatim>\<open>close\<close> in a
  sequence of events, and \<open>before a b xs\<close>: \<open>b\<close> occurs in \<open>xs\<close> after the first \<open>a\<close>.\<close>

fun enqueued :: "event list \<Rightarrow> nat list" where
  "enqueued [] = []"
| "enqueued (Enqueued n # es) = n # enqueued es"
| "enqueued (e # es) = enqueued es"

fun resolved :: "event list \<Rightarrow> nat list" where
  "resolved [] = []"
| "resolved (ResolvedWaiter n c # es) = n # resolved es"
| "resolved (e # es) = resolved es"

fun timed_out :: "event list \<Rightarrow> nat list" where
  "timed_out [] = []"
| "timed_out (TimedOut n # es) = n # timed_out es"
| "timed_out (e # es) = timed_out es"

fun rejected_closing :: "event list \<Rightarrow> nat list" where
  "rejected_closing [] = []"
| "rejected_closing (PoolClosing n # es) = n # rejected_closing es"
| "rejected_closing (e # es) = rejected_closing es"

definition before :: "'a \<Rightarrow> 'a \<Rightarrow> 'a list \<Rightarrow> bool" where
  "before a b xs \<longleftrightarrow> b \<in> set (drop 1 (dropWhile (\<lambda>x. x \<noteq> a) xs))"

text \<open>A waiter is settled after a sequence of events when its promise has been resolved or
  rejected; the waiters pending are the queued ones not settled, in the order of their
  queueing.  The invariant that ties the queue of the pool to the events so far: the queue
  holds the pending waiters in that order, no promise is queued twice, the promises queued
  have been created, and only a queued promise is settled.\<close>

definition settled :: "event list \<Rightarrow> nat \<Rightarrow> bool" where
  "settled es n \<longleftrightarrow>
     n \<in> set (resolved es) \<or> n \<in> set (timed_out es) \<or> n \<in> set (rejected_closing es)"

definition pending :: "event list \<Rightarrow> nat list" where
  "pending es = filter (\<lambda>n. \<not> settled es n) (enqueued es)"

definition queue_invariant :: "event list \<Rightarrow> pool \<Rightarrow> bool" where
  "queue_invariant es p \<longleftrightarrow>
     map resolver (waitingQueue p) = pending es
     \<and> distinct (enqueued es)
     \<and> list_all (\<lambda>n. n < promises p) (enqueued es)
     \<and> set (resolved es) \<union> set (timed_out es) \<union> set (rejected_closing es)
           \<subseteq> set (enqueued es)"

section \<open>Concrete inputs\<close>

text \<open>A runtime that is right on the values of the examples below: the empty object and
  the empty array for JSON, strings and natural numbers for \<^verbatim>\<open>String\<close>, and of the
  members of \<^verbatim>\<open>Object.prototype\<close> the functions \<^verbatim>\<open>toString\<close> and \<^verbatim>\<open>constructor\<close>, with the
  text that \<^verbatim>\<open>String\<close> gives for them.\<close>

definition example_runtime :: runtime where
  "example_runtime =
     \<lparr>JSON_stringify = (\<lambda>v. if v = JArray [] then ''[]'' else ''{}''),
      JSON_parse = (\<lambda>s. if s = ''{}'' then Some (JObject [])
                         else if s = ''[]'' then Some (JArray []) else None),
      toString = (\<lambda>v. case v of JString s \<Rightarrow> s
                              | JNumber (Finite x) \<Rightarrow> decimal (nat \<lfloor>x\<rfloor>)
                              | _ \<Rightarrow> []),
      Object_prototype =
        (\<lambda>k. if k = ''toString'' then JOther ''function toString() { [native code] }''
             else if k = ''constructor'' then JOther ''function Object() { [native code] }''
             else JUndefined),
      builtin_property = (\<lambda>v k. JUndefined)\<rparr>"

text \<open>Two engines over a database that is a counter of the requests served: one accepts
  every request and yields no row, one throws on every request.\<close>

definition accepting_engine :: "nat engine" where
  "accepting_engine db req = (([], None), db + 1)"

definition failing_engine :: "nat engine" where
  "failing_engine db req = (([], Some (EngineError ''UNIQUE constraint failed'')), db)"

definition fresh_session :: "nat session" where
  "fresh_session = \<lparr>store = 0, issued = []\<rparr>"

definition users_table :: table where
  "users_table =
     \<lparr>tableName = ''Users'',
      schema =
        [\<lparr>column.name = ''id'', type = TNumber, primary = True, unique = False,
          nullable = False, autoIncrement = True, default = JUndefined\<rparr>,
         \<lparr>column.name = ''name'', type = TString, primary = False, unique = False,
          nullable = True, autoIncrement = False, default = JUndefined\<rparr>,
         \<lparr>column.name = ''isActive'', type = TBoolean, primary = False, unique = False,
          nullable = False, autoIncrement = False, default = JUndefined\<rparr>,
         \<lparr>column.name = ''createdAt'', type = TDate, primary = False, unique = False,
          nullable = False, autoIncrement = False, default = JUndefined\<rparr>,
         \<lparr>column.name = ''profile'', type = TJson, primary = False, unique = False,
          nullable = True, autoIncrement = False, default = JUndefined\<rparr>]\<rparr>"

definition no_options :: options where
  "no_options = \<lparr>where = None, select = None, limit = None, skip = None, values = None\<rparr>"

definition small_pool_config :: pool_config where
  "small_pool_config =
     \<lparr>maxConnections = 2, minConnections = 0, acquireTimeout = 10000, idleTimeout = 30000,
      reapInterval = 10000, maxConnectionAge = 3600000\<rparr>"

definition autoincrement_text_table :: table_schema where
  "autoincrement_text_table =
     \<lparr>table_schema.name = ''Tags'',
      columns =
        [\<lparr>column.name = ''label'', type = TString, primary = True, unique = False,
          nullable = False, autoIncrement = True, default = JUndefined\<rparr>]\<rparr>"

definition first_record :: js_record where
  "first_record = [(''name'', JString ''a''), (''isActive'', JBoolean True)]"

definition later_record :: js_record where
  "later_record = [(''name'', JString ''b''), (''extra'', JNumber (Finite 1))]"

text \<open>A first record with a key that every object inherits, for a later record without
  it.\<close>

definition shadowing_record :: js_record where
  "shadowing_record = [(''name'', JString ''a''), (''toString'', JString ''t'')]"

definition mixed_predicate :: js_record where
  "mixed_predicate = [(''id'', JNumber (Finite 1)), (''LIKE'', JObject [(''name'', JString ''a%'')])]"

definition empty_predicate :: js_record where
  "empty_predicate = [(''LIKE'', JObject []), (''OR'', JArray [])]"

definition sample_row :: js_record where
  "sample_row =
     [(''id'', JNumber (Finite 7)), (''name'', JString ''a''), (''isActive'', JBoolean True),
      (''createdAt'', JDate (Some 1000)), (''profile'', JObject [])]"

text \<open>An exported document of two rows.\<close>

definition import_document :: js_value where
  "import_document =
     JObject [(''data'', JArray [JObject [(''id'', JNumber (Finite 1))],
                                 JObject [(''id'', JNumber (Finite 2))]])]"

text \<open>A pool of one connection, and two runs of it.  In both the connection \<^verbatim>\<open>a\<close> is
  created and acquired, and then two callers queue.  In the first, \<^verbatim>\<open>a\<close> is released
  twice.  In the second, the pool is closed when one caller is queued, and used again:
  a connection \<^verbatim>\<open>b\<close> is created for the next caller, another caller queues, and \<^verbatim>\<open>b\<close> is
  released.\<close>

definition single_pool_config :: pool_config where
  "single_pool_config =
     \<lparr>maxConnections = 1, minConnections = 1, acquireTimeout = 10000, idleTimeout = 30000,
      reapInterval = 10000, maxConnectionAge = 3600000\<rparr>"

definition fifo_scenario :: "pool_op list" where
  "fifo_scenario =
     [Create ''a'' 0, Acquire True ''b'' 1, Acquire True ''c'' 2, Acquire True ''d'' 3,
      Release ''a'' 4, Release ''a'' 5]"

definition closing_scenario :: "pool_op list" where
  "closing_scenario =
     [Create ''a'' 0, Acquire True ''b'' 1, Acquire True ''c'' 2, Close,
      Acquire True ''b'' 3, AcquireResume ''b'' 3 3, Acquire True ''d'' 4, Release ''b'' 5]"

section \<open>Theorems\<close>

subsection \<open>Row codec: encoding\<close>

text \<open>
  C4 (as the specification states it, refuted).  The specification has \<^verbatim>\<open>null\<close> and
  \<^verbatim>\<open>undefined\<close> encoded as \<^verbatim>\<open>NULL\<close>.  \<^verbatim>\<open>parseParameters\<close> encodes both as the empty string,
  which is not \<^verbatim>\<open>null\<close>.
\<close>

theorem null_is_not_encoded_as_NULL:
  "parseParameters example_runtime [JNull, JUndefined] = [JString [], JString []]
   \<and> parseParameters example_runtime [JNull, JUndefined] \<noteq> [JNull, JNull]"
  by (simp add: parseParameters_def)

text \<open>
  C4 (amended).  The encoding maps every parameter on its own: a number and a string to
  themselves, a boolean to 1 or 0, a date to its time value in milliseconds, an object
  and an array to their \<^verbatim>\<open>JSON.stringify\<close> text, and \<^verbatim>\<open>null\<close> and \<^verbatim>\<open>undefined\<close> to the empty
  string.
\<close>

theorem encoding_of_parameters:
  "parseParameters rt [JNumber n, JString s, JBoolean True, JBoolean False, JDate d] =
     [JNumber n, JString s, JNumber (Finite 1), JNumber (Finite 0), JNumber (getTime d)]
   \<and> parseParameters rt [JObject r, JArray xs] =
     [JString (JSON_stringify rt (JObject r)), JString (JSON_stringify rt (JArray xs))]
   \<and> parseParameters rt [JNull, JUndefined] = [JString [], JString []]
   \<and> parseParameters rt (ps @ qs) = parseParameters rt ps @ parseParameters rt qs"
  by (simp add: parseParameters_def)

theorem encoding_of_parameters_witness:
  "parseParameters example_runtime
     [JNumber (Finite 7), JString ''a'', JBoolean True, JBoolean False, JDate (Some 1000)] =
     [JNumber (Finite 7), JString ''a'', JNumber (Finite 1), JNumber (Finite 0),
      JNumber (Finite 1000)]
   \<and> parseParameters example_runtime [JObject [], JArray []] = [JString ''{}'', JString ''[]'']
   \<and> parseParameters example_runtime [JNull, JUndefined] = [JString [], JString []]"
  using encoding_of_parameters [of example_runtime "Finite 7" "''a''" "Some 1000" "[]" "[]" "[]" "[]"]
  by (simp add: example_runtime_def)

subsection \<open>Schema validation\<close>

lemma length_card_distinct: "length ys = card (set ys) \<longleftrightarrow> distinct ys"
  by (metis card_distinct distinct_card)

lemma validateTableSchema_ok:
  "validateTableSchema t = Inr () \<longleftrightarrow>
     table_schema.name t \<noteq> [] \<and> \<not> list_all is_white_space (table_schema.name t)
     \<and> columns t \<noteq> [] \<and> list_ex primary (columns t)
     \<and> distinct (map column.name (columns t))"
  unfolding validateTableSchema_def trim_is_empty_def length_card_distinct
  by auto

lemma validateTableSchema_error:
  "validateTableSchema t = Inl e \<Longrightarrow> is_InvalidSchema e"
  unfolding validateTableSchema_def by (auto split: if_splits)

text \<open>
  C6 (as the specification states it, refuted).  A table whose only column is a primary
  \<^verbatim>\<open>string\<close> column with \<^verbatim>\<open>autoIncrement\<close> set passes the validation.
\<close>

theorem autoincrement_on_text_is_accepted:
  "autoIncrement (hd (columns autoincrement_text_table))
   \<and> type (hd (columns autoincrement_text_table)) \<noteq> TNumber
   \<and> validateTableSchema autoincrement_text_table = Inr ()"
  by (simp add: validateTableSchema_def autoincrement_text_table_def trim_is_empty_def
        is_white_space_def)

text \<open>
  C6 (amended).  The validation fails exactly when the name of the table is empty or
  white space only, the table has no column, no column is primary, or two columns have
  the same name; every failure is an \<open>InvalidSchema\<close> error.  The flag \<^verbatim>\<open>autoIncrement\<close>
  has no part in the validation; the emitter of the column constraints writes
  \<^verbatim>\<open>AUTOINCREMENT\<close> exactly for a \<^verbatim>\<open>number\<close> column that has the flag.
\<close>

theorem schema_validation:
  "((\<exists>e. validateTableSchema t = Inl e) \<longleftrightarrow>
      table_schema.name t = [] \<or> list_all is_white_space (table_schema.name t)
      \<or> columns t = [] \<or> \<not> list_ex primary (columns t)
      \<or> \<not> distinct (map column.name (columns t)))
   \<and> (\<forall>e. validateTableSchema t = Inl e \<longrightarrow> is_InvalidSchema e)
   \<and> validateTableSchema (t\<lparr>columns := map (\<lambda>c. c\<lparr>autoIncrement := flag c\<rparr>) (columns t)\<rparr>)
       = validateTableSchema t
   \<and> (''AUTOINCREMENT'' \<in> set (columnConstraints rt c) \<longleftrightarrow> type c = TNumber \<and> autoIncrement c)"
proof -
  have "(\<exists>e. validateTableSchema t = Inl e) \<longleftrightarrow> validateTableSchema t \<noteq> Inr ()"
    by (cases "validateTableSchema t") auto
  then have a: "(\<exists>e. validateTableSchema t = Inl e) \<longleftrightarrow>
      table_schema.name t = [] \<or> list_all is_white_space (table_schema.name t)
      \<or> columns t = [] \<or> \<not> list_ex primary (columns t)
      \<or> \<not> distinct (map column.name (columns t))"
    unfolding validateTableSchema_ok by blast
  have b: "\<forall>e. validateTableSchema t = Inl e \<longrightarrow> is_InvalidSchema e"
    using validateTableSchema_error by blast
  have c: "validateTableSchema (t\<lparr>columns := map (\<lambda>c. c\<lparr>autoIncrement := flag c\<rparr>) (columns t)\<rparr>)
             = validateTableSchema t"
    by (simp add: validateTableSchema_def list_ex_iff comp_def)
  have d: "''AUTOINCREMENT'' \<in> set (columnConstraints rt c) \<longleftrightarrow> type c = TNumber \<and> autoIncrement c"
    by (auto simp: columnConstraints_def)
  from a b c d show ?thesis by blast
qed

theorem schema_validation_witness:
  "\<not> (\<exists>e. validateTableSchema autoincrement_text_table = Inl e)
   \<and> ''AUTOINCREMENT'' \<notin> set (columnConstraints example_runtime
                                   (hd (columns autoincrement_text_table)))"
  using schema_validation [of autoincrement_text_table "\<lambda>c. False" example_runtime
          "hd (columns autoincrement_text_table)"]
  by (simp add: autoincrement_text_table_def is_white_space_def)

subsection \<open>Predicate safety\<close>

lemma getProp_in_set:
  "has_key k w \<Longrightarrow> (k, getProp w k) \<in> set w"
proof -
  assume "has_key k w"
  then have "map_of w k \<noteq> None"
    unfolding has_key_def by (simp add: map_of_eq_None_iff)
  then obtain v where v: "map_of w k = Some v" by blast
  then have "(k, v) \<in> set w" by (rule map_of_SomeD)
  with v show ?thesis by (simp add: getProp_def)
qed

lemma no_meaningful_operand:
  assumes "no_meaningful_condition w" and "has_key k w"
  shows "getProp w k = JObject [] \<or> getProp w k = JArray []"
  using getProp_in_set[OF assms(2)] assms(1)
  unfolding no_meaningful_condition_def list_all_iff by auto

lemma no_meaningful_keys:
  assumes "no_meaningful_condition w"
  shows "filter (\<lambda>key. key \<notin> set operator_keys) (Object_keys w) = []"
  using assms unfolding no_meaningful_condition_def list_all_iff Object_keys_def
  by (auto simp: filter_empty_conv)

lemma no_meaningful_operator:
  assumes "no_meaningful_condition w"
  shows "\<not> nonEmptyOperator k w"
  using no_meaningful_operand[OF assms, of k]
  unfolding nonEmptyOperator_def by (auto simp: Object_keys_def)

lemma no_meaningful_invalid:
  assumes "no_meaningful_condition w"
  shows "\<not> hasValidWhereConditions w"
proof -
  have "has_key ''OR'' w \<Longrightarrow> array_length (getProp w ''OR'') = 0"
    using no_meaningful_operand[OF assms, of "''OR''"] by auto
  then show ?thesis
    unfolding hasValidWhereConditions_def
    using no_meaningful_keys[OF assms] no_meaningful_operator[OF assms]
    by auto
qed

text \<open>
  C2.  For a predicate \<open>P\<close> with no meaningful condition, \<^verbatim>\<open>update\<close> with non-empty values
  and \<^verbatim>\<open>delete\<close> throw a \<open>MissingPredicate\<close> error and leave the session as it was: no
  request reaches the engine and the database is unchanged.  \<^verbatim>\<open>update\<close> with an empty
  values object throws the \<open>EmptyUpdate\<close> error, in the same way.
\<close>

theorem predicate_safety:
  assumes "no_meaningful_condition P"
  shows "(values opts = Some V \<and> V \<noteq> [] \<and> where opts = Some P \<longrightarrow>
            Table_update rt eng tbl opts s = (Inl UpdateRequiresNonEmptyWhere, s))
         \<and> (where opts = Some P \<longrightarrow>
            Table_delete rt eng tbl opts s = (Inl DeleteRequiresNonEmptyWhere, s))
         \<and> is_MissingPredicate UpdateRequiresNonEmptyWhere
         \<and> is_MissingPredicate DeleteRequiresNonEmptyWhere
         \<and> (values opts = Some [] \<longrightarrow>
            Table_update rt eng tbl opts s = (Inl UpdateValuesEmpty, s))
         \<and> is_EmptyUpdate UpdateValuesEmpty"
  using no_meaningful_invalid[OF assms]
  by (auto simp: Table_update_def Table_delete_def validateUpdateOptions_def
        validateDeleteOptions_def is_MissingPredicate_def is_EmptyUpdate_def Object_keys_def)

theorem predicate_safety_witness:
  "no_meaningful_condition empty_predicate
   \<and> Table_update example_runtime accepting_engine users_table
        (no_options\<lparr>where := Some empty_predicate,
                    values := Some [(''isActive'', JBoolean False)]\<rparr>) fresh_session
      = (Inl UpdateRequiresNonEmptyWhere, fresh_session)
   \<and> Table_delete example_runtime accepting_engine users_table
        (no_options\<lparr>where := Some empty_predicate,
                    values := Some [(''isActive'', JBoolean False)]\<rparr>) fresh_session
      = (Inl DeleteRequiresNonEmptyWhere, fresh_session)"
proof -
  have h: "no_meaningful_condition empty_predicate"
    by (simp add: no_meaningful_condition_def empty_predicate_def operator_keys_def)
  show ?thesis
    using h predicate_safety [OF h, of "no_options\<lparr>where := Some empty_predicate,
                    values := Some [(''isActive'', JBoolean False)]\<rparr>"
          "[(''isActive'', JBoolean False)]" example_runtime accepting_engine users_table
          fresh_session]
    by (simp add: no_options_def)
qed

subsection \<open>The wrapper and the requests it issues\<close>

lemma wrapper_from_2:
  "snd (executeWithErrorWrapper_from 2 cb s) = snd (cb s)"
  by (subst executeWithErrorWrapper_from.simps) (auto split: prod.splits sum.splits)

lemma wrapper_from_1:
  "snd (executeWithErrorWrapper_from 1 cb s) = snd (cb s)
   \<or> snd (executeWithErrorWrapper_from 1 cb s) = snd (cb (snd (cb s)))"
  by (subst (1 2) executeWithErrorWrapper_from.simps)
     (auto split: prod.splits sum.splits simp: wrapper_from_2)

lemma wrapper_states:
  "snd (executeWithErrorWrapper cb s) = snd (cb s)
   \<or> snd (executeWithErrorWrapper cb s) = snd (cb (snd (cb s)))
   \<or> snd (executeWithErrorWrapper cb s) = snd (cb (snd (cb (snd (cb s)))))"
  unfolding executeWithErrorWrapper_def
  using wrapper_from_1[of cb "snd (cb s)"]
  by (subst (1 2 3) executeWithErrorWrapper_from.simps)
     (auto split: prod.splits sum.splits)

lemma wrapper_rel:
  assumes step: "\<And>s. R s (snd (cb s))"
      and trans: "\<And>a b c. R a b \<Longrightarrow> R b c \<Longrightarrow> R a c"
  shows "R s (snd (executeWithErrorWrapper cb s))"
proof -
  have one: "R s (snd (cb s))" by (rule step)
  have two: "R s (snd (cb (snd (cb s))))" by (rule trans[OF one step])
  have three: "R s (snd (cb (snd (cb (snd (cb s))))))" by (rule trans[OF two step])
  from wrapper_states[of cb s] one two three show ?thesis by auto
qed

lemma perform_issued: "issued (snd (perform eng req s)) = issued s @ [req]"
  by (simp add: perform_def split: prod.splits)

lemma query_issued: "issued (snd (query eng q ps s)) = issued s @ [Query q ps]"
  using perform_issued[of eng "Query q ps" s]
  by (auto simp: query_def split: prod.splits option.splits)

lemma transact_issued:
  "issued (snd (transact eng q b s)) = issued s @ [Transaction q (fst b) (snd b)]"
  using perform_issued[of eng "Transaction q (fst b) (snd b)" s]
  by (auto simp: transact_def split: prod.splits option.splits)

lemma issues_only_trans:
  assumes "issues_only r a b" and "issues_only r b c"
  shows "issues_only r a c"
proof -
  from assms obtain n m where "issued b = issued a @ r # replicate n r"
    and "issued c = issued b @ r # replicate m r"
    unfolding issues_only_def by blast
  then have "issued c = issued a @ r # replicate (n + 1 + m) r"
    by (simp add: replicate_add replicate_append_same)
  then show ?thesis unfolding issues_only_def by blast
qed

lemma wrapper_issues_only:
  assumes "\<And>t. issued (snd (cb t)) = issued t @ [req]"
  shows "issues_only req s (snd (executeWithErrorWrapper cb s))"
proof -
  have step: "issues_only req t (snd (cb t))" for t
  proof -
    have "issued (snd (cb t)) = issued t @ req # replicate 0 req"
      using assms[of t] by simp
    then show ?thesis unfolding issues_only_def by blast
  qed
  show ?thesis
    by (rule wrapper_rel[where R = "issues_only req"]) (rule step, rule issues_only_trans)
qed

lemma selectRows_issued:
  "issued (snd (selectRows rt eng tbl q ps t)) = issued t @ [Query q ps]"
  using query_issued[of eng q ps t] by (auto simp: selectRows_def split: prod.splits sum.splits)

lemma countRow_issued:
  "issued (snd (countRow eng q ps t)) = issued t @ [Query q ps]"
  using query_issued[of eng q ps t] by (auto simp: countRow_def split: prod.splits sum.splits)

lemma runStatement_issued:
  "issued (snd (runStatement eng q ps t)) = issued t @ [Query q ps]"
  using query_issued[of eng q ps t] by (auto simp: runStatement_def split: prod.splits sum.splits)

lemma runTransaction_issued:
  "issued (snd (runTransaction eng q b t)) = issued t @ [Transaction q (fst b) (snd b)]"
  using transact_issued[of eng q b t]
  by (auto simp: runTransaction_def split: prod.splits option.splits)

lemma issues_only_first:
  "issues_only req s s1 \<Longrightarrow> \<exists>rest. issued s1 = issued s @ req # rest"
  unfolding issues_only_def by auto

lemma issues_only_then:
  "issues_only req s s1 \<Longrightarrow> issues_only req' s1 s2 \<Longrightarrow> \<exists>rest. issued s2 = issued s @ req # rest"
  unfolding issues_only_def by auto

lemma emptyOR_build: "buildWhereClause [(''OR'', JArray [])] = Inr ''WHERE ()''"
  by (simp add: buildWhereClause_def whereConditions_def orConditions_def Object_keys_def
      has_key_def getProp_def bindE_def operatorConditions_def regularFields_def operator_keys_def)

lemma emptyOR_params: "extractWhereParameters rt [(''OR'', JArray [])] = Inr []"
  by (simp add: extractWhereParameters_def orParameters_def Object_keys_def
      has_key_def getProp_def bindE_def operatorParameters_def regularFields_def operator_keys_def)

lemma emptyOR_invalid: "\<not> hasValidWhereConditions [(''OR'', JArray [])]"
  by (simp add: hasValidWhereConditions_def Object_keys_def operator_keys_def
      nonEmptyOperator_def has_key_def getProp_def)

lemma paginate_issues_count:
  assumes cq: "countQuery rt tbl w = Inr (q, ps)"
  shows "\<exists>rest. issued (snd (Table_paginate rt eng tbl pg pgSize w sel orderBy s))
           = issued s @ Query q ps # rest"
proof -
  obtain r1 s1 where w1: "executeWithErrorWrapper (countRow eng q ps) s = (r1, s1)"
    by (cases "executeWithErrorWrapper (countRow eng q ps) s")
  have g1: "issues_only (Query q ps) s s1"
    using wrapper_issues_only[of "countRow eng q ps" "Query q ps" s] countRow_issued w1
    by (metis snd_conv)
  have g2: "issues_only (Query q' ps') s1
              (snd (executeWithErrorWrapper (selectRows rt eng tbl q' ps') s1))" for q' ps'
    by (rule wrapper_issues_only) (rule selectRows_issued)
  show ?thesis
  proof (cases r1)
    case (Inl e)
    then show ?thesis using issues_only_first[OF g1]
      by (simp add: Table_paginate_def cq w1)
  next
    case tot: (Inr tot)
    let ?so = "\<lparr>where = w, select = sel, limit = None, skip = None, values = None\<rparr>"
    show ?thesis
    proof (cases "buildSelectQuery rt tbl ?so")
      case (Inl e)
      then show ?thesis using issues_only_first[OF g1]
        by (simp add: Table_paginate_def cq w1 tot)
    next
      case q0: (Inr q0)
      show ?thesis
      proof (cases "extractQueryParameters rt ?so")
        case (Inl e)
        then show ?thesis using issues_only_first[OF g1]
          by (simp add: Table_paginate_def cq w1 tot q0)
      next
        case params: (Inr params)
        let ?q2 = "pageQuery rt q0 orderBy pgSize ((pg - 1) * pgSize)"
        obtain r2 s2 where w2:
          "executeWithErrorWrapper (selectRows rt eng tbl ?q2 params) s1 = (r2, s2)"
          by (cases "executeWithErrorWrapper (selectRows rt eng tbl ?q2 params) s1")
        have "snd (Table_paginate rt eng tbl pg pgSize w sel orderBy s) = s2"
          by (cases r2) (simp_all add: Table_paginate_def cq w1 tot q0 params w2)
        moreover have "\<exists>rest. issued s2 = issued s @ Query q ps # rest"
          using issues_only_then[OF g1 g2[of ?q2 params]] w2 by simp
        ultimately show ?thesis by simp
      qed
    qed
  qed
qed

subsection \<open>The empty disjunction\<close>

lemma emptyOR_countQuery:
  "countQuery rt tbl (Some [(''OR'', JArray [])])
     = Inr (''SELECT COUNT(*) as count FROM '' @ tableName tbl @ '' WHERE ()'', [])"
  by (simp add: countQuery_def emptyOR_build emptyOR_params bindE_def)

lemma select_emptyOR:
  "validateSelectOptions opts = Inr () \<Longrightarrow> emptyOR (where opts) \<Longrightarrow>
   Table_select rt eng tbl opts s = (Inr [], s)"
  by (simp add: Table_select_def)

lemma count_emptyOR:
  "emptyOR (where opts) \<Longrightarrow> Table_count rt eng tbl opts s = (Inr (JNumber (Finite 0)), s)"
  by (simp add: Table_count_def)

text \<open>
  C1 (the code departs from the claim).  On the predicate \<^verbatim>\<open>{OR: []}\<close>, \<^verbatim>\<open>select\<close> and
  \<^verbatim>\<open>count\<close> return at once (the two lemmas above).  \<^verbatim>\<open>delete\<close> does not reach its own
  test for the empty \<^verbatim>\<open>OR\<close>: the validation that runs first throws, since
  \<^verbatim>\<open>hasValidWhereConditions\<close> counts an empty \<^verbatim>\<open>OR\<close> as no condition.  \<^verbatim>\<open>paginate\<close> has no
  such test: it hands the engine a count statement whose text ends in \<^verbatim>\<open>WHERE ()\<close>.
\<close>

theorem empty_OR_delete_throws_paginate_queries:
  "Table_delete rt eng tbl (opts\<lparr>where := Some [(''OR'', JArray [])]\<rparr>) s
     = (Inl DeleteRequiresNonEmptyWhere, s)
   \<and> (\<exists>rest. issued (snd (Table_paginate rt eng tbl pg pgSize (Some [(''OR'', JArray [])])
                              sel orderBy s))
          = issued s @ Query (''SELECT COUNT(*) as count FROM '' @ tableName tbl @ '' WHERE ()'') []
                       # rest)"
proof -
  have "Table_delete rt eng tbl (opts\<lparr>where := Some [(''OR'', JArray [])]\<rparr>) s
          = (Inl DeleteRequiresNonEmptyWhere, s)"
    by (simp add: Table_delete_def validateDeleteOptions_def emptyOR_invalid)
  then show ?thesis
    using paginate_issues_count[OF emptyOR_countQuery, where eng = eng and pg = pg
            and pgSize = pgSize and sel = sel and orderBy = orderBy and s = s]
    by simp
qed

subsection \<open>Insertion binds against the columns of the first record\<close>

lemma own_JObject: "own (JObject r) k = getProp r k"
  by (simp add: own_def getProp_def Object_keys_def Object_values_def zip_map_fst_snd)

lemma has_own_JObject: "has_own k (JObject r) \<longleftrightarrow> map_of r k \<noteq> None"
  by (simp add: has_own_def Object_keys_def map_of_eq_None_iff)

lemma read_chain_object: "read_chain rt (JObject r) k = Inr (property_of rt r k)"
  by (cases "map_of r k")
     (simp_all add: read_chain_def has_own_JObject own_JObject getProp_def property_of_def)

lemma format_object:
  "formatRecordValuesForInsert rt (JObject r) cols = Inr (bound_against rt cols r)"
  unfolding formatRecordValuesForInsert_def bound_against_def
  by (induction cols) (simp_all add: read_chain_object bindE_def parseParameters_def)

lemma formatAll_objects:
  "formatAll rt cols (map JObject rs) = (map (bound_against rt cols) rs, None)"
  by (induction rs) (simp_all add: format_object)

lemma keys_JObject: "Object_keys_of (JObject r) = Inr (Object_keys r)"
  by (simp add: Object_keys_of_def)

lemma insert_issues:
  "issues_only (Transaction (insertQuery tbl (Object_keys r))
                  (map (bound_against rt (Object_keys r)) (r # rs)) None)
     s (snd (Table_insert rt eng tbl (map JObject (r # rs)) s))"
proof -
  have "issues_only (Transaction (insertQuery tbl (Object_keys r))
                  (map (bound_against rt (Object_keys r)) (r # rs)) None)
     s (snd (executeWithErrorWrapper
         (runTransaction eng (insertQuery tbl (Object_keys r))
            (map (bound_against rt (Object_keys r)) (r # rs), None)) s))"
    by (rule wrapper_issues_only) (simp add: runTransaction_issued)
  then show ?thesis
    using formatAll_objects[of rt "Object_keys r" "r # rs"]
    by (simp add: Table_insert_def keys_JObject del: formatAll.simps)
qed

lemma upsert_issues:
  "issues_only (Transaction (upsertQuery tbl (Object_keys r) cc uc)
                  (map (bound_against rt (Object_keys r)) (r # rs)) None)
     s (snd (Table_upsert rt eng tbl (map JObject (r # rs)) cc uc s))"
proof -
  have "issues_only (Transaction (upsertQuery tbl (Object_keys r) cc uc)
                  (map (bound_against rt (Object_keys r)) (r # rs)) None)
     s (snd (executeWithErrorWrapper
         (runTransaction eng (upsertQuery tbl (Object_keys r) cc uc)
            (map (bound_against rt (Object_keys r)) (r # rs), None)) s))"
    by (rule wrapper_issues_only) (simp add: runTransaction_issued)
  then show ?thesis
    using formatAll_objects[of rt "Object_keys r" "r # rs"]
    by (simp add: Table_upsert_def keys_JObject del: formatAll.simps)
qed

lemma slice_inside:
  assumes "0 \<le> i" "i < int (length xs)" "0 < sz"
  shows "slice xs i (i + sz) = take (nat sz) (drop (nat i) xs)"
proof -
  have "take (nat (min (i + sz) (int (length xs)) - i)) (drop (nat i) xs)
          = take (nat sz) (drop (nat i) xs)"
  proof (cases "i + sz \<le> int (length xs)")
    case True
    then show ?thesis by (simp add: min_def)
  next
    case False
    then have "nat (int (length xs) - i) = length (drop (nat i) xs)"
      using assms by simp
    moreover have "length (drop (nat i) xs) \<le> nat sz" using False assms by simp
    ultimately show ?thesis using False by (simp add: min_def)
  qed
  then show ?thesis using assms by (simp add: slice_def Let_def min_def)
qed

lemma slice_map: "slice (map f xs) i j = map f (slice xs i j)"
  by (simp add: slice_def Let_def take_map drop_map)

lemma chunk_from_total:
  assumes "0 < sz"
  shows "0 \<le> i \<Longrightarrow>
         \<exists>bs. chunk_from xs sz i acc = Some (acc @ bs) \<and> concat bs = drop (nat i) xs
              \<and> chunk_from (map f xs) sz i (map (map f) acc) = Some (map (map f) (acc @ bs))"
proof (induction "nat (int (length xs) - i)" arbitrary: i acc rule: less_induct)
  case less
  show ?case
  proof (cases "i < int (length xs)")
    case False
    have "chunk_from xs sz i acc = Some (acc @ [])"
      using False by (subst chunk_from.simps) simp
    moreover have "chunk_from (map f xs) sz i (map (map f) acc) = Some (map (map f) (acc @ []))"
      using False by (subst chunk_from.simps) simp
    moreover have "concat [] = drop (nat i) xs" using False less.prems by simp
    ultimately show ?thesis by blast
  next
    case True
    have "nat (int (length xs) - (i + sz)) < nat (int (length xs) - i)"
      using True assms by simp
    from less.hyps[OF this, of "acc @ [slice xs i (i + sz)]"] less.prems assms
    obtain bs where bs: "chunk_from xs sz (i + sz) (acc @ [slice xs i (i + sz)])
                           = Some ((acc @ [slice xs i (i + sz)]) @ bs)"
      and c: "concat bs = drop (nat (i + sz)) xs"
      and m: "chunk_from (map f xs) sz (i + sz) (map (map f) (acc @ [slice xs i (i + sz)]))
                = Some (map (map f) ((acc @ [slice xs i (i + sz)]) @ bs))"
      by auto
    have d: "drop (nat (i + sz)) xs = drop (nat sz) (drop (nat i) xs)"
      using less.prems assms by (simp add: nat_add_distrib add.commute)
    have "chunk_from xs sz i acc = Some (acc @ (slice xs i (i + sz) # bs))"
      using True bs by (subst chunk_from.simps) simp
    moreover have "concat (slice xs i (i + sz) # bs) = drop (nat i) xs"
    proof -
      have "concat (slice xs i (i + sz) # bs)
              = take (nat sz) (drop (nat i) xs) @ drop (nat sz) (drop (nat i) xs)"
        unfolding concat.simps c d slice_inside[OF less.prems True assms] ..
      then show ?thesis by (simp only: append_take_drop_id)
    qed
    moreover have "chunk_from (map f xs) sz i (map (map f) acc)
                     = Some (map (map f) (acc @ (slice xs i (i + sz) # bs)))"
      using True m by (subst chunk_from.simps) (simp add: slice_map)
    ultimately show ?thesis by blast
  qed
qed

lemma chunk_total:
  "0 < sz \<Longrightarrow> \<exists>bs. chunk xs sz = Some bs \<and> concat bs = xs
                    \<and> chunk (map f xs) sz = Some (map (map f) bs)"
  using chunk_from_total[of sz 0 xs "[]" f] by (simp add: chunk_def)

lemma chunk_pair: "chunk [a, b] 1 = Some [[a], [b]]"
  by (simp add: chunk_def chunk_from.simps slice_def)

text \<open>One pass of \<^verbatim>\<open>bulkInsert\<close> over its batches issues the transactions of the plan up
  to the first one that fails: at least one, and all of them when the pass succeeds.\<close>

lemma bulkBatches_objects:
  "bulkBatches rt eng q cols (map (map JObject) bs) (s, ids) = (res, (s', ids')) \<Longrightarrow>
   \<exists>n. issued s' = issued s
             @ take n (map (\<lambda>b. Transaction q (map (bound_against rt cols) b) None) bs)
       \<and> (bs \<noteq> [] \<longrightarrow> 0 < n) \<and> (\<forall>v. res = Inr v \<longrightarrow> length bs \<le> n)"
proof (induction bs arbitrary: s ids)
  case Nil
  then have "issued s' = issued s @ take 0 []" by simp
  then show ?case by (intro exI[of _ 0]) simp
next
  case (Cons b bs)
  obtain rows failure s1
    where t: "transact eng q (map (bound_against rt cols) b, None) s = ((rows, failure), s1)"
    by (metis surj_pair)
  have i1: "issued s1 = issued s @ [Transaction q (map (bound_against rt cols) b) None]"
    using transact_issued[of eng q "(map (bound_against rt cols) b, None)" s] t by simp
  show ?case
  proof (cases failure)
    case (Some e)
    with Cons.prems t have "res = Inl e" "s' = s1"
      by (simp_all add: formatAll_objects del: formatAll.simps)
    with i1 have "issued s' = issued s
             @ take 1 (map (\<lambda>b. Transaction q (map (bound_against rt cols) b) None) (b # bs))"
      by simp
    then show ?thesis using \<open>res = Inl e\<close> by (intro exI[of _ 1]) simp
  next
    case None
    with Cons.prems t
    have "bulkBatches rt eng q cols (map (map JObject) bs) (s1, ids @ rowIds rows)
            = (res, (s', ids'))"
      by (simp add: formatAll_objects del: formatAll.simps)
    from Cons.IH[OF this] obtain n
      where n: "issued s' = issued s1
                  @ take n (map (\<lambda>b. Transaction q (map (bound_against rt cols) b) None) bs)"
        and all: "\<forall>v. res = Inr v \<longrightarrow> length bs \<le> n"
      by blast
    from n i1 have "issued s' = issued s
             @ take (Suc n) (map (\<lambda>b. Transaction q (map (bound_against rt cols) b) None) (b # bs))"
      by simp
    then show ?thesis using all by (intro exI[of _ "Suc n"]) simp
  qed
qed

lemma wrapper_success_2:
  "executeWithErrorWrapper_from 2 cb s = (Inr v, s') \<Longrightarrow> cb s = (Inr v, s')"
  by (subst (asm) executeWithErrorWrapper_from.simps)
     (auto split: prod.splits sum.splits if_splits)

lemma wrapper_success_1:
  "executeWithErrorWrapper_from 1 cb s = (Inr v, s') \<Longrightarrow>
   cb s = (Inr v, s') \<or> cb (snd (cb s)) = (Inr v, s')"
  by (subst (asm) executeWithErrorWrapper_from.simps)
     (auto split: prod.splits sum.splits if_splits dest: wrapper_success_2)

lemma wrapper_success:
  "executeWithErrorWrapper cb s = (Inr v, s') \<Longrightarrow>
   cb s = (Inr v, s') \<or> cb (snd (cb s)) = (Inr v, s')
   \<or> cb (snd (cb (snd (cb s)))) = (Inr v, s')"
  unfolding executeWithErrorWrapper_def
  by (subst (asm) executeWithErrorWrapper_from.simps)
     (auto split: prod.splits sum.splits if_splits dest: wrapper_success_1)

lemma bulkInsert_issues:
  assumes "0 < batchSize"
  shows "\<exists>res s' bs new.
           Table_bulkInsert rt eng tbl (map JObject (r # rs)) batchSize s = Some (res, s')
           \<and> chunk (r # rs) batchSize = Some bs \<and> concat bs = r # rs
           \<and> issued s' = issued s @ new \<and> new \<noteq> []
           \<and> hd new = hd (bulk_plan rt tbl (Object_keys r) bs)
           \<and> set new \<subseteq> set (bulk_plan rt tbl (Object_keys r) bs)
           \<and> (\<forall>ids. res = Inr ids
                \<longrightarrow> (\<exists>earlier. new = earlier @ bulk_plan rt tbl (Object_keys r) bs))"
proof -
  obtain bs where bs: "chunk (r # rs) batchSize = Some bs"
    and cc: "concat bs = r # rs"
    and cm: "chunk (map JObject (r # rs)) batchSize = Some (map (map JObject) bs)"
    using chunk_total[OF assms, of "r # rs" JObject] by blast
  from cc have ne: "bs \<noteq> []" by auto
  define plan where "plan = bulk_plan rt tbl (Object_keys r) bs"
  from ne have pne: "plan \<noteq> []" by (simp add: plan_def bulk_plan_def)
  define cb where "cb = (\<lambda>(s :: 'a session, insertedIds :: js_value list).
                 bulkBatches rt eng (insertQuery tbl (Object_keys r)) (Object_keys r)
                   (map (map JObject) bs) (s, insertedIds))"
  have attempt: "\<exists>n. issued (fst (snd (cb t))) = issued (fst t) @ take n plan \<and> 0 < n
                   \<and> (\<forall>v. fst (cb t) = Inr v \<longrightarrow> take n plan = plan)" for t
  proof -
    obtain s0 ids0 where t: "t = (s0, ids0)" by (cases t)
    obtain res s1 ids1 where c: "cb t = (res, (s1, ids1))" by (metis surj_pair)
    then have "bulkBatches rt eng (insertQuery tbl (Object_keys r)) (Object_keys r)
                 (map (map JObject) bs) (s0, ids0) = (res, (s1, ids1))"
      by (simp add: cb_def t)
    from bulkBatches_objects[OF this] ne obtain n
      where "issued s1 = issued s0 @ take n plan" "0 < n"
            "\<forall>v. res = Inr v \<longrightarrow> length bs \<le> n"
      unfolding plan_def bulk_plan_def by blast
    moreover have "length plan = length bs" by (simp add: plan_def bulk_plan_def)
    ultimately show ?thesis using c t by (intro exI[of _ n]) simp
  qed
  define G where "G = (\<lambda>(a :: 'a session \<times> js_value list) (b :: 'a session \<times> js_value list).
                        \<exists>new. issued (fst b) = issued (fst a) @ new \<and> new \<noteq> []
                              \<and> hd new = hd plan \<and> set new \<subseteq> set plan)"
  have st: "G t (snd (cb t))" for t
  proof -
    from attempt[of t] obtain n
      where n: "issued (fst (snd (cb t))) = issued (fst t) @ take n plan" "0 < n" by blast
    from n(2) pne have "take n plan \<noteq> []" by simp
    moreover from n(2) have "hd (take n plan) = hd plan" by simp
    moreover have "set (take n plan) \<subseteq> set plan" by (rule set_take_subset)
    ultimately show ?thesis unfolding G_def using n(1) by blast
  qed
  have tr: "G a b \<Longrightarrow> G b c \<Longrightarrow> G a c" for a b c
  proof -
    assume "G a b" "G b c"
    then obtain n1 n2 where 1: "issued (fst b) = issued (fst a) @ n1" "n1 \<noteq> []"
        "hd n1 = hd plan" "set n1 \<subseteq> set plan"
      and 2: "issued (fst c) = issued (fst b) @ n2" "set n2 \<subseteq> set plan"
      unfolding G_def by blast
    have "issued (fst c) = issued (fst a) @ (n1 @ n2)" using 1(1) 2(1) by simp
    moreover have "n1 @ n2 \<noteq> []" "hd (n1 @ n2) = hd plan" "set (n1 @ n2) \<subseteq> set plan"
      using 1(2,3,4) 2(2) by simp_all
    ultimately show "G a c" unfolding G_def by blast
  qed
  obtain res fin where w: "executeWithErrorWrapper cb (s, []) = (res, fin)"
    by (cases "executeWithErrorWrapper cb (s, [])")
  have "G (s, []) (snd (executeWithErrorWrapper cb (s, [])))"
    by (rule wrapper_rel[where R = G and cb = cb, OF st tr])
  then obtain new where new: "issued (fst fin) = issued s @ new" "new \<noteq> []"
      "hd new = hd plan" "set new \<subseteq> set plan"
    unfolding G_def w by auto
  have suffix: "\<exists>earlier. new = earlier @ plan" if "res = Inr ids" for ids
  proof -
    have e0: "\<exists>earlier. issued (fst (s, [] :: js_value list)) = issued s @ earlier" by simp
    have e1: "\<exists>earlier. issued (fst (snd (cb t))) = issued s @ earlier"
      if "\<exists>earlier. issued (fst t) = issued s @ earlier" for t
      using that attempt[of t] by auto
    from wrapper_success[OF w[unfolded that]]
    obtain t where t: "cb t = (Inr ids, fin)"
      and "t = (s, []) \<or> t = snd (cb (s, [])) \<or> t = snd (cb (snd (cb (s, []))))"
      by blast
    then have "\<exists>earlier. issued (fst t) = issued s @ earlier"
      using e0 e1[OF e0] e1[OF e1[OF e0]] by blast
    then obtain earlier where earlier: "issued (fst t) = issued s @ earlier" by blast
    from attempt[of t] t have "issued (fst fin) = issued (fst t) @ plan" by auto
    with earlier new(1) have "new = earlier @ plan" by simp
    then show ?thesis by blast
  qed
  have "Table_bulkInsert rt eng tbl (map JObject (r # rs)) batchSize s = Some (res, fst fin)"
  proof -
    have "chunk (JObject r # map JObject rs) batchSize = Some (map (map JObject) bs)"
      using cm by simp
    moreover have "(\<lambda>(s, insertedIds).
                          case Object_keys_of (JObject r) of
                            Inl e \<Rightarrow> (Inl e, (s, insertedIds))
                          | Inr cols \<Rightarrow>
                              bulkBatches rt eng (insertQuery tbl cols) cols
                                (map (map JObject) bs) (s, insertedIds)) = cb"
      by (simp add: cb_def keys_JObject)
    ultimately show ?thesis
      using w by (simp add: Table_bulkInsert_def split: prod.splits)
  qed
  with bs cc new suffix show ?thesis unfolding plan_def by blast
qed

text \<open>
  C10 (as the claim states it, refuted).  The first record has the key \<^verbatim>\<open>toString\<close> and
  the later record has not: the read \<^verbatim>\<open>record["toString"]\<close> on the later record yields the
  function that every object inherits from \<^verbatim>\<open>Object.prototype\<close>, and what \<^verbatim>\<open>insert\<close> binds
  for it is the text of that function, not the encoding of \<^verbatim>\<open>undefined\<close>.
\<close>

theorem inherited_key_is_not_bound_as_undefined:
  "''toString'' \<notin> set (Object_keys later_record)
   \<and> issued (snd (Table_insert example_runtime accepting_engine users_table
                     (map JObject [shadowing_record, later_record]) fresh_session))
       = [Transaction ''INSERT INTO Users (name, toString) VALUES (?, ?)''
            [[JString ''a'', JString ''t''],
             [JString ''b'', JString ''function toString() { [native code] }'']] None]
   \<and> JString ''function toString() { [native code] }'' \<noteq> encodeParam example_runtime JUndefined"
  by (simp add: Table_insert_def Object_keys_of_def Object_keys_def shadowing_record_def
        later_record_def format_object bound_against_def property_of_def runTransaction_def
        transact_def perform_def accepting_engine_def executeWithErrorWrapper_def
        insertQuery_def users_table_def fresh_session_def example_runtime_def
        Let_def split: prod.splits)

text \<open>
  C10 (amended).  For a batch of records \<open>r # rs\<close> (objects), \<^verbatim>\<open>insert\<close>, \<^verbatim>\<open>upsert\<close> and
  \<^verbatim>\<open>bulkInsert\<close> take the column list from the keys of the first record \<open>r\<close> only, and
  bind each record against exactly that list.  \<^verbatim>\<open>insert\<close> and \<^verbatim>\<open>upsert\<close> issue one
  transaction over all the records (again after a "database is locked" error).
  \<^verbatim>\<open>bulkInsert\<close> with a positive batch size returns; the batches are the chunks of the
  records, in order; it issues at least one transaction, the first is that of the first
  batch, every one is the transaction of a batch, and when it succeeds the transactions of
  all the batches, in order, are the last ones it issued: every record has been bound
  against the columns of the first.  A key that is not in the column list has no effect on
  what is bound for a record, and for a column that a record lacks and does not inherit
  the encoding of \<^verbatim>\<open>undefined\<close> is bound.
\<close>

theorem insert_columns_from_first_record:
  "issues_only (Transaction (insertQuery tbl (Object_keys r))
                  (map (bound_against rt (Object_keys r)) (r # rs)) None)
     s (snd (Table_insert rt eng tbl (map JObject (r # rs)) s))
   \<and> issues_only (Transaction (upsertQuery tbl (Object_keys r) conflictColumns updateColumns)
                  (map (bound_against rt (Object_keys r)) (r # rs)) None)
     s (snd (Table_upsert rt eng tbl (map JObject (r # rs)) conflictColumns updateColumns s))
   \<and> (0 < batchSize \<longrightarrow>
        (\<exists>res s' bs new.
           Table_bulkInsert rt eng tbl (map JObject (r # rs)) batchSize s = Some (res, s')
           \<and> chunk (r # rs) batchSize = Some bs \<and> concat bs = r # rs
           \<and> issued s' = issued s @ new \<and> new \<noteq> []
           \<and> hd new = hd (bulk_plan rt tbl (Object_keys r) bs)
           \<and> set new \<subseteq> set (bulk_plan rt tbl (Object_keys r) bs)
           \<and> (\<forall>ids. res = Inr ids
                \<longrightarrow> (\<exists>earlier. new = earlier @ bulk_plan rt tbl (Object_keys r) bs))))
   \<and> (k \<notin> set cols \<longrightarrow> bound_against rt cols ((k, v) # rec) = bound_against rt cols rec)
   \<and> (c \<notin> set (Object_keys rec) \<and> Object_prototype rt c = JUndefined
        \<longrightarrow> bound_against rt [c] rec = [encodeParam rt JUndefined])"
proof -
  have a: "k \<notin> set cols \<longrightarrow> bound_against rt cols ((k, v) # rec) = bound_against rt cols rec"
    by (auto simp: bound_against_def property_of_def)
  have "map_of rec c = None" if "c \<notin> set (Object_keys rec)"
    using that by (simp add: Object_keys_def map_of_eq_None_iff)
  then have b: "c \<notin> set (Object_keys rec) \<and> Object_prototype rt c = JUndefined
                  \<longrightarrow> bound_against rt [c] rec = [encodeParam rt JUndefined]"
    by (simp add: bound_against_def property_of_def)
  have i: "0 < batchSize \<longrightarrow>
        (\<exists>res s' bs new.
           Table_bulkInsert rt eng tbl (map JObject (r # rs)) batchSize s = Some (res, s')
           \<and> chunk (r # rs) batchSize = Some bs \<and> concat bs = r # rs
           \<and> issued s' = issued s @ new \<and> new \<noteq> []
           \<and> hd new = hd (bulk_plan rt tbl (Object_keys r) bs)
           \<and> set new \<subseteq> set (bulk_plan rt tbl (Object_keys r) bs)
           \<and> (\<forall>ids. res = Inr ids
                \<longrightarrow> (\<exists>earlier. new = earlier @ bulk_plan rt tbl (Object_keys r) bs)))"
    by (rule impI) (rule bulkInsert_issues)
  from insert_issues[of tbl r rt rs s eng]
       upsert_issues[of tbl r conflictColumns updateColumns rt rs s eng] i a b
  show ?thesis by (intro conjI)
qed

theorem insert_columns_from_first_record_witness:
  "issues_only
     (Transaction ''INSERT INTO Users (name, isActive) VALUES (?, ?)''
        [[JString ''a'', JNumber (Finite 1)], [JString ''b'', JString []]] None)
     fresh_session
     (snd (Table_insert example_runtime accepting_engine users_table
             (map JObject [first_record, later_record]) fresh_session))
   \<and> (0::int) < 1
   \<and> (\<exists>s'. Table_bulkInsert example_runtime accepting_engine users_table
               (map JObject [first_record, later_record]) 1 fresh_session = Some (Inr [], s')
           \<and> (\<exists>earlier. issued s' = issued fresh_session @ earlier
                 @ [Transaction ''INSERT INTO Users (name, isActive) VALUES (?, ?)''
                      [[JString ''a'', JNumber (Finite 1)]] None,
                    Transaction ''INSERT INTO Users (name, isActive) VALUES (?, ?)''
                      [[JString ''b'', JString []]] None]))
   \<and> ''extra'' \<notin> set (Object_keys first_record)
   \<and> ''isActive'' \<notin> set (Object_keys later_record)
   \<and> Object_prototype example_runtime ''isActive'' = JUndefined
   \<and> bound_against example_runtime [''isActive''] later_record = [JString []]"
proof -
  note T = insert_columns_from_first_record [where tbl = users_table and r = first_record
          and rt = example_runtime and rs = "[later_record]" and s = fresh_session
          and eng = accepting_engine and conflictColumns = "[]" and updateColumns = None
          and batchSize = 1 and k = "''extra''" and cols = "Object_keys first_record"
          and v = "JNumber (Finite 1)" and rec = later_record
          and c = "''isActive''"]
  have q: "insertQuery users_table (Object_keys first_record)
             = ''INSERT INTO Users (name, isActive) VALUES (?, ?)''"
    by (simp add: insertQuery_def users_table_def first_record_def Object_keys_def)
  have v: "map (bound_against example_runtime (Object_keys first_record))
             [first_record, later_record]
           = [[JString ''a'', JNumber (Finite 1)], [JString ''b'', JString []]]"
    by (simp add: bound_against_def property_of_def first_record_def later_record_def
          Object_keys_def example_runtime_def)
  have k1: "''extra'' \<notin> set (Object_keys first_record)"
    by (simp add: first_record_def Object_keys_def)
  have k2: "''isActive'' \<notin> set (Object_keys later_record)"
    by (simp add: later_record_def Object_keys_def)
  have k3: "Object_prototype example_runtime ''isActive'' = JUndefined"
    by (simp add: example_runtime_def)
  have one: "(0::int) < 1" by simp
  from T have "issues_only (Transaction (insertQuery users_table (Object_keys first_record))
                  (map (bound_against example_runtime (Object_keys first_record))
                     [first_record, later_record]) None)
     fresh_session
     (snd (Table_insert example_runtime accepting_engine users_table
             (map JObject [first_record, later_record]) fresh_session))"
    by (rule conjunct1)
  then have a: "issues_only
     (Transaction ''INSERT INTO Users (name, isActive) VALUES (?, ?)''
        [[JString ''a'', JNumber (Finite 1)], [JString ''b'', JString []]] None)
     fresh_session
     (snd (Table_insert example_runtime accepting_engine users_table
             (map JObject [first_record, later_record]) fresh_session))"
    unfolding q v .
  have p: "bulk_plan example_runtime users_table (Object_keys first_record)
             [[first_record], [later_record]]
           = [Transaction ''INSERT INTO Users (name, isActive) VALUES (?, ?)''
                [[JString ''a'', JNumber (Finite 1)]] None,
              Transaction ''INSERT INTO Users (name, isActive) VALUES (?, ?)''
                [[JString ''b'', JString []]] None]"
    using v by (simp add: bulk_plan_def q)
  have ok: "\<exists>ids s'. Table_bulkInsert example_runtime accepting_engine users_table
               (map JObject [first_record, later_record]) 1 fresh_session = Some (Inr ids, s')
               \<and> ids = []"
    by (simp add: Table_bulkInsert_def chunk_pair executeWithErrorWrapper_def keys_JObject
          formatAll_objects[where rs = "[x]" for x, simplified]
          transact_def perform_def accepting_engine_def rowIds_def split: prod.splits)
  from T [THEN conjunct2, THEN conjunct2, THEN conjunct1, rule_format, OF one]
  obtain res s' bs new
    where r: "Table_bulkInsert example_runtime accepting_engine users_table
                (map JObject [first_record, later_record]) 1 fresh_session = Some (res, s')"
      and c: "chunk [first_record, later_record] 1 = Some bs"
      and i: "issued s' = issued fresh_session @ new"
      and e: "\<forall>ids. res = Inr ids
                \<longrightarrow> (\<exists>earlier. new = earlier
                       @ bulk_plan example_runtime users_table (Object_keys first_record) bs)"
    by (elim exE conjE)
  from c have bs: "bs = [[first_record], [later_record]]" by (simp add: chunk_pair)
  from ok r have res: "res = Inr []" by auto
  from e res obtain earlier
    where "new = earlier @ bulk_plan example_runtime users_table (Object_keys first_record) bs"
    by blast
  with i have "issued s' = issued fresh_session @ earlier
                 @ [Transaction ''INSERT INTO Users (name, isActive) VALUES (?, ?)''
                      [[JString ''a'', JNumber (Finite 1)]] None,
                    Transaction ''INSERT INTO Users (name, isActive) VALUES (?, ?)''
                      [[JString ''b'', JString []]] None]"
    by (simp add: bs p)
  with r res have b: "\<exists>s'. Table_bulkInsert example_runtime accepting_engine users_table
               (map JObject [first_record, later_record]) 1 fresh_session = Some (Inr [], s')
           \<and> (\<exists>earlier. issued s' = issued fresh_session @ earlier
                 @ [Transaction ''INSERT INTO Users (name, isActive) VALUES (?, ?)''
                      [[JString ''a'', JNumber (Finite 1)]] None,
                    Transaction ''INSERT INTO Users (name, isActive) VALUES (?, ?)''
                      [[JString ''b'', JString []]] None])"
    by blast
  from T [THEN conjunct2, THEN conjunct2, THEN conjunct2, THEN conjunct2, rule_format,
          OF conjI, OF k2 k3]
  have "bound_against example_runtime [''isActive''] later_record
                    = [encodeParam example_runtime JUndefined]" .
  then have c: "bound_against example_runtime [''isActive''] later_record = [JString []]"
    by simp
  from a one b k1 k2 k3 c show ?thesis by (intro conjI)
qed

subsection \<open>The compiled where clause and its parameters\<close>

lemma keys_values_length: "length (keys_of v) = length (values_of v)"
  by (cases v) (simp_all add: Object_keys_def Object_values_def)

lemma atoms_render:
  "map render_atom (atoms_of op v) = map (conditionText op) (keys_of v)"
proof -
  have "map render_atom (map (\<lambda>(key, x). Atom key op x) (zip ks vs))
          = map (conditionText op) ks" if "length ks = length vs" for ks vs
    using that by (induction ks vs rule: list_induct2) simp_all
  then show ?thesis unfolding atoms_of_def using keys_values_length by blast
qed

lemma atoms_values: "map atom_value (atoms_of op v) = values_of v"
proof -
  have "map atom_value (map (\<lambda>(key, x). Atom key op x) (zip ks vs)) = vs"
    if "length ks = length vs" for ks :: "string list" and vs
    using that by (induction ks vs rule: list_induct2) simp_all
  then show ?thesis unfolding atoms_of_def using keys_values_length by blast
qed

lemma atoms_operator: "a \<in> set (atoms_of op v) \<Longrightarrow> atom_operator a = op"
  unfolding atoms_of_def by (auto dest!: set_zip_leftD)

lemma operator_render:
  "map (render_clause \<circ> Single) (operatorAtoms k op w) = operatorConditions k op w"
  by (simp add: operatorAtoms_def operatorConditions_def comp_def atoms_render)

lemma operator_values:
  "parseParameters rt (concat (map clause_values (map Single (operatorAtoms k op w))))
     = operatorParameters rt k w"
proof -
  have "concat (map clause_values (map Single as)) = map atom_value as" for as
    by (induction as) simp_all
  then have "parseParameters rt (concat (map clause_values (map Single (operatorAtoms k op w))))
               = parseParameters rt (map atom_value (operatorAtoms k op w))"
    by simp
  also have "map atom_value (operatorAtoms k op w)
               = (if has_key k w \<and> truthy (getProp w k) then values_of (getProp w k) else [])"
    by (simp add: operatorAtoms_def atoms_values)
  finally show ?thesis
    by (simp add: operatorParameters_def parseParameters_def)
qed

lemma mapE_map:
  "mapE (\<lambda>x. case f x of Inl e \<Rightarrow> Inl e | Inr y \<Rightarrow> Inr (h y)) xs
     = (case mapE f xs of Inl e \<Rightarrow> Inl e | Inr ys \<Rightarrow> Inr (map h ys))"
  by (induction xs) (auto split: sum.splits)

lemma orCondition_group:
  "orCondition c = (case orGroup c of Inl e \<Rightarrow> Inl e
                    | Inr g \<Rightarrow> Inr (join '' AND '' (map render_atom g)))"
  by (simp add: orCondition_def orGroup_def bindE_def Object_keys_of_def atoms_render)

lemma orParameter_group:
  "orParameter rt c = (case orGroup c of Inl e \<Rightarrow> Inl e
                       | Inr g \<Rightarrow> Inr (parseParameters rt (map atom_value g)))"
  by (simp add: orParameter_def orGroup_def bindE_def Object_values_of_def atoms_values)

lemma orConditions_clauses:
  "orConditions w = (case orClauses w of Inl e \<Rightarrow> Inl e
                     | Inr ors \<Rightarrow> Inr (map render_clause ors))"
proof -
  have "mapE orCondition xs
          = (case mapE orGroup xs of Inl e \<Rightarrow> Inl e
             | Inr gs \<Rightarrow> Inr (map (\<lambda>g. join '' AND '' (map render_atom g)) gs))" for xs
    using mapE_map[where f = orGroup and h = "\<lambda>g. join '' AND '' (map render_atom g)"
            and xs = xs]
    by (simp add: orCondition_group[abs_def])
  then show ?thesis
    by (simp add: orConditions_def orClauses_def bindE_def split: sum.splits)
qed

lemma parseParameters_concat:
  "concat (map (parseParameters rt) xss) = parseParameters rt (concat xss)"
  by (simp add: parseParameters_def[abs_def] map_concat)

lemma orParameters_clauses:
  "orParameters rt w = (case orClauses w of Inl e \<Rightarrow> Inl e
                        | Inr ors \<Rightarrow> Inr (parseParameters rt (concat (map clause_values ors))))"
proof -
  have "mapE (orParameter rt) xs
          = (case mapE orGroup xs of Inl e \<Rightarrow> Inl e
             | Inr gs \<Rightarrow> Inr (map (\<lambda>g. parseParameters rt (map atom_value g)) gs))" for xs
    using mapE_map[where f = orGroup and h = "\<lambda>g. parseParameters rt (map atom_value g)"
            and xs = xs]
    by (simp add: orParameter_group[abs_def])
  moreover have "concat (map (\<lambda>g. parseParameters rt (map atom_value g)) gs)
                   = parseParameters rt (map atom_value (concat gs))" for gs
    by (simp add: parseParameters_def map_concat comp_def)
  ultimately show ?thesis
    by (simp add: orParameters_def orClauses_def bindE_def parseParameters_def split: sum.splits)
qed

lemma equality_render:
  "map render_clause (equalityClauses w)
     = (if length (regularFields w) > 0 then map (conditionText ''='') (regularFields w) else [])"
  by (simp add: equalityClauses_def comp_def)

lemma equality_values:
  "parseParameters rt (concat (map clause_values (equalityClauses w)))
     = (if length (regularFields w) > 0
        then parseParameters rt (map (\<lambda>key. getProp w key) (regularFields w)) else [])"
proof -
  have "concat (map clause_values (map (\<lambda>key. Single (Atom key ''='' (getProp w key))) ks))
          = map (\<lambda>key. getProp w key) ks" for ks
    by (induction ks) simp_all
  then show ?thesis by (simp add: equalityClauses_def parseParameters_def)
qed

lemma whereConditions_plan:
  "whereConditions w = (case wherePlan w of Inl e \<Rightarrow> Inl e
                        | Inr plan \<Rightarrow> Inr (map render_clause plan))"
  by (simp add: whereConditions_def wherePlan_def bindE_def orConditions_clauses
        likeClauses_def comparisonClauses_def operator_render equality_render
        split: sum.splits)


lemma operator_values_fused:
  "parseParameters rt (concat (map (clause_values \<circ> Single) (operatorAtoms k op w)))
     = operatorParameters rt k w"
  using operator_values[of rt k op w] by simp

lemma extract_plan:
  "extractWhereParameters rt w = (case wherePlan w of Inl e \<Rightarrow> Inl e
                                  | Inr plan \<Rightarrow> Inr (parseParameters rt (plan_values plan)))"
proof (cases "orClauses w")
  case (Inl e)
  then show ?thesis
    by (simp add: extractWhereParameters_def wherePlan_def bindE_def orParameters_clauses)
next
  case (Inr ors)
  have split: "parseParameters rt (xs @ ys) = parseParameters rt xs @ parseParameters rt ys"
    for xs ys by (simp add: parseParameters_def)
  show ?thesis
    using Inr
    by (simp add: extractWhereParameters_def wherePlan_def bindE_def orParameters_clauses
          plan_values_def likeClauses_def comparisonClauses_def split
          operator_values_fused equality_values)
qed

lemma build_plan:
  "buildWhereClause w = (case wherePlan w of Inl e \<Rightarrow> Inl e
                         | Inr plan \<Rightarrow> Inr (render_plan plan))"
proof (cases "Object_keys w = []")
  case True
  then have "w = []" by (simp add: Object_keys_def)
  then show ?thesis
    by (simp add: buildWhereClause_def wherePlan_def orClauses_def bindE_def has_key_def
          likeClauses_def comparisonClauses_def equalityClauses_def operatorAtoms_def
          regularFields_def Object_keys_def render_plan_def)
next
  case False
  then show ?thesis
    by (simp add: buildWhereClause_def whereConditions_plan bindE_def render_plan_def
          split: sum.splits)
qed

lemma like_rank: "c \<in> set (likeClauses w) \<Longrightarrow> emitted_rank c = 0"
  by (auto simp: likeClauses_def operatorAtoms_def dest: atoms_operator split: if_splits)

lemma comparison_rank: "c \<in> set (comparisonClauses w) \<Longrightarrow> emitted_rank c = 1"
  by (auto simp: comparisonClauses_def operatorAtoms_def dest: atoms_operator split: if_splits)

lemma or_rank: "orClauses w = Inr ors \<Longrightarrow> c \<in> set ors \<Longrightarrow> emitted_rank c = 2"
  by (auto simp: orClauses_def bindE_def split: if_splits sum.splits)

lemma equality_rank: "c \<in> set (equalityClauses w) \<Longrightarrow> emitted_rank c = 3"
  by (auto simp: equalityClauses_def)

lemma sorted_constant: "(\<And>x. x \<in> set xs \<Longrightarrow> f x = (n::nat)) \<Longrightarrow> sorted (map f xs)"
  by (induction xs) auto

lemma plan_sorted:
  assumes "wherePlan w = Inr plan"
  shows "sorted (map emitted_rank plan)"
proof -
  from assms obtain ors where ors: "orClauses w = Inr ors"
    and plan: "plan = likeClauses w @ comparisonClauses w @ ors @ equalityClauses w"
    by (auto simp: wherePlan_def bindE_def split: sum.splits)
  show ?thesis
    unfolding plan
    using like_rank[of _ w] comparison_rank[of _ w] or_rank[OF ors] equality_rank[of _ w]
    by (auto simp: sorted_append intro!: sorted_constant)
qed


lemma mixed_plan:
  "wherePlan mixed_predicate
     = Inr [Single (Atom ''name'' ''LIKE'' (JString ''a%'')),
            Single (Atom ''id'' ''='' (JNumber (Finite 1)))]"
  by code_simp

text \<open>
  C3 (as the specification states it, refuted).  The specification has the clauses in the
  order implicit equality, \<^verbatim>\<open>LIKE\<close>, comparisons, \<^verbatim>\<open>OR\<close>.  For the predicate
  \<^verbatim>\<open>{id: 1, LIKE: {name: 'a%'}}\<close> the compiled text has the \<^verbatim>\<open>LIKE\<close> clause first and the
  equality last.
\<close>

theorem equality_is_emitted_last:
  "buildWhereClause mixed_predicate = Inr ''WHERE name LIKE ? AND id = ?''
   \<and> buildWhereClause mixed_predicate \<noteq> Inr ''WHERE id = ? AND name LIKE ?''
   \<and> wherePlan mixed_predicate
       = Inr [Single (Atom ''name'' ''LIKE'' (JString ''a%'')),
              Single (Atom ''id'' ''='' (JNumber (Finite 1)))]
   \<and> \<not> sorted (map specified_rank
                  [Single (Atom ''name'' ''LIKE'' (JString ''a%'')),
                   Single (Atom ''id'' ''='' (JNumber (Finite 1)))])"
  by code_simp

text \<open>
  C3 (amended).  For every predicate, the compiled text is the plan's clauses joined by
  \<^verbatim>\<open>AND\<close> after \<^verbatim>\<open>WHERE\<close> (no text for an empty plan), the parameter vector is the encoding
  of the values of the plan's placeholders in the same order, and the clauses of the plan
  stand in the order \<^verbatim>\<open>LIKE\<close>, ordered comparisons, \<^verbatim>\<open>OR\<close>, implicit equality.  When the
  compilation throws (an element of \<^verbatim>\<open>OR\<close> is \<^verbatim>\<open>null\<close> or \<^verbatim>\<open>undefined\<close>), both functions
  throw.
\<close>

theorem where_clause_order_and_parameters:
  "buildWhereClause w = (case wherePlan w of Inl e \<Rightarrow> Inl e
                         | Inr plan \<Rightarrow> Inr (render_plan plan))
   \<and> extractWhereParameters rt w
       = (case wherePlan w of Inl e \<Rightarrow> Inl e
          | Inr plan \<Rightarrow> Inr (parseParameters rt (plan_values plan)))
   \<and> (wherePlan w = Inr plan \<longrightarrow> sorted (map emitted_rank plan))"
  using build_plan[of w] extract_plan[of rt w] plan_sorted[of w plan] by blast

theorem where_clause_order_and_parameters_witness:
  "wherePlan mixed_predicate
     = Inr [Single (Atom ''name'' ''LIKE'' (JString ''a%'')),
            Single (Atom ''id'' ''='' (JNumber (Finite 1)))]
   \<and> buildWhereClause mixed_predicate = Inr ''WHERE name LIKE ? AND id = ?''
   \<and> extractWhereParameters example_runtime mixed_predicate
       = Inr [JString ''a%'', JNumber (Finite 1)]
   \<and> sorted (map emitted_rank
              [Single (Atom ''name'' ''LIKE'' (JString ''a%'')),
               Single (Atom ''id'' ''='' (JNumber (Finite 1)))])"
proof -
  note T = where_clause_order_and_parameters [where w = mixed_predicate
             and rt = example_runtime
             and plan = "[Single (Atom ''name'' ''LIKE'' (JString ''a%'')),
                          Single (Atom ''id'' ''='' (JNumber (Finite 1)))]"]
  have a: "buildWhereClause mixed_predicate = Inr ''WHERE name LIKE ? AND id = ?''"
    using T [THEN conjunct1] unfolding mixed_plan
    by (simp add: render_plan_def conditionText_def)
  have b: "extractWhereParameters example_runtime mixed_predicate
             = Inr [JString ''a%'', JNumber (Finite 1)]"
    using T [THEN conjunct2, THEN conjunct1] unfolding mixed_plan
    by (simp add: plan_values_def parseParameters_def)
  have c: "sorted (map emitted_rank
              [Single (Atom ''name'' ''LIKE'' (JString ''a%'')),
               Single (Atom ''id'' ''='' (JNumber (Finite 1)))])"
    using T [THEN conjunct2, THEN conjunct2, rule_format, OF mixed_plan] .
  from mixed_plan a b c show ?thesis by (intro conjI)
qed

subsection \<open>Row codec: the round trip\<close>

lemma date_round_trip:
  assumes "\<bar>t\<bar> \<le> 8640000000000000"
  shows "new_Date (getTime (Some t)) = Some t"
proof -
  have "\<bar>real_of_int t\<bar> \<le> 8640000000000000"
  proof -
    have "\<bar>real_of_int t\<bar> = real_of_int \<bar>t\<bar>" by simp
    also have "\<dots> \<le> real_of_int 8640000000000000"
      using assms by (simp only: of_int_le_iff)
    finally show ?thesis by simp
  qed
  moreover have "truncate_toward_zero (real_of_int t) = t"
    by (simp add: truncate_toward_zero_def)
  ultimately show ?thesis by simp
qed

lemma value_round_trip:
  assumes "logical_value rt ty v"
  shows "restoreValue rt ty (encodeParam rt v) = v"
proof (cases ty)
  case TNumber
  with assms show ?thesis by (cases v) (simp_all add: restoreValue_def)
next
  case TFloat
  with assms show ?thesis by (cases v) (simp_all add: restoreValue_def)
next
  case TString
  with assms show ?thesis by (cases v) (simp_all add: restoreValue_def)
next
  case TBoolean
  with assms show ?thesis by (cases v) (simp_all add: restoreValue_def)
next
  case TDate
  with assms show ?thesis
  proof (cases v)
    case (JDate d)
    with assms TDate show ?thesis
      by (cases d) (simp_all add: restoreValue_def date_round_trip del: new_Date.simps getTime.simps,
                    simp)
  qed simp_all
next
  case TJson
  with assms show ?thesis by (cases v) (simp_all add: restoreValue_def)
qed

text \<open>C5 (as the specification states it, refuted).  The claim ranges over every value
  that is not \<^verbatim>\<open>undefined\<close>, so over \<^verbatim>\<open>null\<close>, the value of a nullable column.  The encoder
  turns \<^verbatim>\<open>null\<close> into the empty string, and the decoder of a \<^verbatim>\<open>string\<close> column passes the empty
  string through: what comes back for the column \<^verbatim>\<open>name\<close> of \<open>users_table\<close> is \<^verbatim>\<open>""\<close>, not
  \<^verbatim>\<open>null\<close>.\<close>

theorem null_does_not_round_trip:
  "restoreDataTypes example_runtime users_table
       [(''name'', hd (parseParameters example_runtime [JNull]))] = [(''name'', JString [])]
   \<and> restoreDataTypes example_runtime users_table
       [(''name'', hd (parseParameters example_runtime [JNull]))] \<noteq> [(''name'', JNull)]"
  by (simp add: restoreDataTypes_def restoreEntry_def restoreValue_def parseParameters_def
        users_table_def)

text \<open>C5 (amended).  For a row whose keys are columns of the schema and whose values are
  logical values of their columns' types (a number, a string, a boolean, a date in the
  range of \<^verbatim>\<open>Date\<close> or the invalid date, a json object or array that \<^verbatim>\<open>JSON.parse\<close> reads
  back from its \<^verbatim>\<open>JSON.stringify\<close> text; neither \<^verbatim>\<open>null\<close> nor \<^verbatim>\<open>undefined\<close>), decoding the
  encoded values under the same keys yields the row again.\<close>

theorem codec_round_trip:
  assumes "logical_row rt tbl row"
  shows "restoreDataTypes rt tbl
           (zip (Object_keys row) (parseParameters rt (Object_values row))) = row"
  using assms
proof (induction row)
  case Nil
  then show ?case
    by (simp add: restoreDataTypes_def Object_keys_def Object_values_def parseParameters_def)
next
  case (Cons entry row)
  obtain k v where entry: "entry = (k, v)" by (cases entry)
  from Cons.prems obtain col
    where col: "find (\<lambda>col. column.name col = k) (schema tbl) = Some col"
      and v: "logical_value rt (type col) v"
      and rest: "logical_row rt tbl row"
    by (auto simp add: logical_row_def entry split: option.splits)
  have "restoreEntry rt tbl (k, encodeParam rt v) = (k, v)"
    by (simp add: restoreEntry_def col value_round_trip[OF v])
  with Cons.IH[OF rest] show ?case
    by (simp add: restoreDataTypes_def Object_keys_def Object_values_def parseParameters_def
          entry)
qed

theorem codec_round_trip_witness:
  "logical_row example_runtime users_table sample_row
   \<and> restoreDataTypes example_runtime users_table
         (zip (Object_keys sample_row)
              (parseParameters example_runtime (Object_values sample_row))) = sample_row"
proof -
  have l: "logical_row example_runtime users_table sample_row"
    by (simp add: logical_row_def sample_row_def users_table_def example_runtime_def)
  from codec_round_trip[OF l] l show ?thesis by simp
qed

subsection \<open>Import from JSON under the strategies fail and ignore\<close>

lemma insert_fails:
  "Table_insert example_runtime failing_engine users_table [JObject [(''id'', v)]] s
     = (Inl (EngineError ''UNIQUE constraint failed''),
        s\<lparr>issued := issued s @ [Transaction (insertQuery users_table [''id''])
                                     [[encodeParam example_runtime v]] None]\<rparr>)"
  by (simp add: Table_insert_def Object_keys_of_def Object_keys_def format_object
        bound_against_def property_of_def runTransaction_def transact_def perform_def
        failing_engine_def executeWithErrorWrapper_def
        Let_def split: prod.splits)

text \<open>C7.  The document \<open>import_document\<close> is imported in batches of one row into a table
  whose engine rejects every insertion.  Under \<^verbatim>\<open>'fail'\<close> the call does not throw: it returns
  the statistics, with the error of the first batch recorded as \<^verbatim>\<open>Import failed: ...\<close>, nothing
  counted as skipped, and the second batch never tried (the inner \<^verbatim>\<open>catch\<close> throws the error
  again, and the outer \<^verbatim>\<open>catch\<close> of the same function takes it).  Under \<^verbatim>\<open>'ignore'\<close> the call
  records one \<^verbatim>\<open>Batch error: ...\<close> for each batch and goes on to the end.\<close>

theorem fail_strategy_returns_statistics:
  "map_option fst
     (Table_importFromJson example_runtime failing_engine users_table import_document
        (Some Fail) (Some 1) fresh_session)
     = Some \<lparr>imported = 0, skipped = 0,
              errors = [ImportFailed (EngineError ''UNIQUE constraint failed'')]\<rparr>
   \<and> map_option fst
     (Table_importFromJson example_runtime failing_engine users_table import_document
        (Some Ignore) (Some 1) fresh_session)
     = Some \<lparr>imported = 0, skipped = 2,
              errors = [BatchError (EngineError ''UNIQUE constraint failed''),
                        BatchError (EngineError ''UNIQUE constraint failed'')]\<rparr>"
  by (simp add: Table_importFromJson_def importData_def import_document_def read_def own_def
        bindE_def chunk_pair importBatch_def insert_fails fresh_session_def
        Object_keys_def Object_values_def)

subsection \<open>Pool conservation\<close>

lemma map_set_keys:
  "map fst (map_set k v m) = (if k \<in> set (map fst m) then map fst m else map fst m @ [k])"
proof (induction m)
  case Nil
  show ?case by simp
next
  case (Cons e m)
  then show ?case by (cases e) force
qed

lemma map_set_lookup: "map_of (map_set k v m) k = Some v"
  by (induction m) auto

lemma map_set_length:
  "length (map_set k v m) = (if k \<in> set (map fst m) then length m else Suc (length m))"
  using arg_cong[OF map_set_keys[of k v m], of length] by (simp split: if_splits)

lemma map_of_key: "map_of m k = Some v \<Longrightarrow> k \<in> set (map fst m)"
  by (metis map_of_eq_None_iff option.distinct(1) set_map)

lemma map_delete_keys: "map fst (map_delete k m) = filter (\<lambda>x. x \<noteq> k) (map fst m)"
  by (induction m) (simp_all add: map_delete_def)

lemma filter_distinct_length:
  "distinct xs \<Longrightarrow> k \<in> set xs \<Longrightarrow> Suc (length (filter (\<lambda>x. x \<noteq> k) xs)) = length xs"
proof (induction xs)
  case Nil
  then show ?case by simp
next
  case (Cons x xs)
  show ?case
  proof (cases "x = k")
    case True
    with Cons.prems have "filter (\<lambda>y. y \<noteq> k) xs = xs"
      by (auto simp add: filter_id_conv)
    with True show ?thesis by simp
  next
    case False
    with Cons show ?thesis by simp
  qed
qed

lemma map_delete_length:
  assumes "distinct (map fst m)" "map_of m k = Some v"
  shows "Suc (length (map_delete k m)) = length m"
proof -
  have "Suc (length (map fst (map_delete k m))) = length (map fst m)"
    unfolding map_delete_keys
    by (rule filter_distinct_length[OF assms(1) map_of_key[OF assms(2)]])
  then show ?thesis by simp
qed

lemma updateStats_conservation:
  assumes "created_minus_destroyed p"
  shows "pool_conservation (updateStats p)"
  using assms by (simp add: pool_conservation_def created_minus_destroyed_def updateStats_def Let_def)

lemma updateStats_connections [simp]: "connections (updateStats p) = connections p"
  by (simp add: updateStats_def Let_def)

lemma updateStats_keys: "keys_distinct (updateStats p) = keys_distinct p"
  by (simp add: keys_distinct_def)

lemma conservation_created:
  "pool_conservation p \<Longrightarrow> created_minus_destroyed p"
  by (simp add: pool_conservation_def created_minus_destroyed_def)

lemma createConnection_preserves:
  assumes "pool_conservation p" "keys_distinct p" "cid \<notin> set (map fst (connections p))"
  shows "pool_conservation (createConnection cid now p) \<and> keys_distinct (createConnection cid now p)"
proof -
  have "created_minus_destroyed (p\<lparr>
       connections := map_set cid \<lparr>createdAt = now, lastUsed = now, inUse = False,
                                   queryCount = 0, errorCount = 0\<rparr> (connections p),
       availableConnections := availableConnections p @ [cid],
       stats := (stats p)\<lparr>totalCreated := totalCreated (stats p) + 1\<rparr>\<rparr>)"
    using conservation_created[OF assms(1)] assms(3)
    by (simp add: created_minus_destroyed_def map_set_length)
  from updateStats_conservation[OF this] assms(2,3) show ?thesis
    by (simp add: createConnection_def keys_distinct_def map_set_keys)
qed

lemma destroyConnection_preserves:
  assumes "pool_conservation p" "keys_distinct p"
  shows "pool_conservation (destroyConnection cid p) \<and> keys_distinct (destroyConnection cid p)"
proof (cases "map_of (connections p) cid")
  case None
  with assms show ?thesis by (simp add: destroyConnection_def)
next
  case (Some c)
  have "int (length (connections p)) = int (length (map_delete cid (connections p))) + 1"
    using map_delete_length[OF assms(2)[unfolded keys_distinct_def] Some] by simp
  then have "created_minus_destroyed (p\<lparr>
            connections := map_delete cid (connections p),
            availableConnections := remove1 cid (availableConnections p),
            stats := (stats p)\<lparr>totalDestroyed := totalDestroyed (stats p) + 1\<rparr>\<rparr>)"
    using conservation_created[OF assms(1)]
    by (simp add: created_minus_destroyed_def)
  from updateStats_conservation[OF this] assms(2) Some show ?thesis
    by (simp add: destroyConnection_def keys_distinct_def map_delete_keys)
qed

lemma fold_destroy_preserves:
  "pool_conservation p \<Longrightarrow> keys_distinct p \<Longrightarrow>
   pool_conservation (fold destroyConnection cids p) \<and> keys_distinct (fold destroyConnection cids p)"
proof (induction cids arbitrary: p)
  case Nil
  then show ?case by simp
next
  case (Cons c cids)
  from destroyConnection_preserves[OF Cons.prems, of c]
  show ?case using Cons.IH[of "destroyConnection c p"] by simp
qed

lemma touch_preserves:
  assumes "pool_conservation p" "keys_distinct p" "map_of (connections p) cid = Some c"
    and "connections p' = map_set cid c' (connections p)"
    and "totalCreated (stats p') = totalCreated (stats p)"
    and "totalDestroyed (stats p') = totalDestroyed (stats p)"
  shows "pool_conservation (updateStats p') \<and> keys_distinct (updateStats p')"
proof -
  have k: "cid \<in> set (map fst (connections p))" by (rule map_of_key[OF assms(3)])
  have "created_minus_destroyed p'"
    using conservation_created[OF assms(1)] k assms(4,5,6)
    by (simp add: created_minus_destroyed_def map_set_length)
  from updateStats_conservation[OF this] assms(2,4) k show ?thesis
    by (simp add: keys_distinct_def map_set_keys)
qed

lemma same_connections_preserves:
  assumes "pool_conservation p" "keys_distinct p"
    and "connections p' = connections p"
    and "totalCreated (stats p') = totalCreated (stats p)"
    and "totalDestroyed (stats p') = totalDestroyed (stats p)"
  shows "pool_conservation (updateStats p') \<and> keys_distinct (updateStats p')"
proof -
  have "created_minus_destroyed p'"
    using conservation_created[OF assms(1)] assms(3,4,5)
    by (simp add: created_minus_destroyed_def)
  from updateStats_conservation[OF this] assms(2,3) show ?thesis
    by (simp add: keys_distinct_def)
qed

lemma recordAcquireTime_fields [simp]:
  "connections (recordAcquireTime t p) = connections p"
  "stats (recordAcquireTime t p) = stats p"
  "waitingQueue (recordAcquireTime t p) = waitingQueue p"
  by (simp_all add: recordAcquireTime_def Let_def)

lemma acquire_preserves:
  assumes "pool_conservation p" "keys_distinct p" "newId \<notin> set (map fst (connections p))"
  shows "pool_conservation (snd (acquire opens newId now p))
         \<and> keys_distinct (snd (acquire opens newId now p))"
proof (cases "availableConnections p")
  case (Cons connectionId rest)
  show ?thesis
  proof (cases "map_of (connections p) connectionId")
    case None
    with Cons assms(1,2) show ?thesis
      by (simp add: acquire_def Let_def pool_conservation_def keys_distinct_def)
  next
    case (Some c)
    have "pool_conservation (updateStats (recordAcquireTime 0 (p\<lparr>promises := promises p + 1,
                  availableConnections := rest,
                  connections := map_set connectionId (c\<lparr>inUse := True, lastUsed := now\<rparr>)
                                   (connections p),
                  stats := (stats p)\<lparr>totalAcquired := totalAcquired (stats p) + 1\<rparr>\<rparr>)))
        \<and> keys_distinct (updateStats (recordAcquireTime 0 (p\<lparr>promises := promises p + 1,
                  availableConnections := rest,
                  connections := map_set connectionId (c\<lparr>inUse := True, lastUsed := now\<rparr>)
                                   (connections p),
                  stats := (stats p)\<lparr>totalAcquired := totalAcquired (stats p) + 1\<rparr>\<rparr>)))"
      by (rule touch_preserves[OF assms(1,2) Some]) simp_all
    with Cons Some show ?thesis by (simp add: acquire_def Let_def)
  qed
next
  case Nil
  show ?thesis
  proof (cases "int (length (connections p)) < maxConnections (config p)")
    case True
    have c: "pool_conservation (p\<lparr>promises := promises p + 1\<rparr>)"
      using assms(1) by (simp add: pool_conservation_def)
    have k: "keys_distinct (p\<lparr>promises := promises p + 1\<rparr>)"
      using assms(2) by (simp add: keys_distinct_def)
    from createConnection_preserves[OF c k, of newId now] assms(3)
    have "pool_conservation (createConnection newId now (p\<lparr>promises := promises p + 1\<rparr>))
          \<and> keys_distinct (createConnection newId now (p\<lparr>promises := promises p + 1\<rparr>))"
      by simp
    with Nil True assms(1,2) show ?thesis
      by (simp add: acquire_def Let_def pool_conservation_def keys_distinct_def)
  next
    case False
    have "pool_conservation (updateStats (p\<lparr>promises := promises p + 1,
              waitingQueue := waitingQueue p @ [\<lparr>resolver = promises p, timestamp = now\<rparr>]\<rparr>))
       \<and> keys_distinct (updateStats (p\<lparr>promises := promises p + 1,
              waitingQueue := waitingQueue p @ [\<lparr>resolver = promises p, timestamp = now\<rparr>]\<rparr>))"
      by (rule same_connections_preserves[OF assms(1,2)]) simp_all
    with Nil False show ?thesis by (simp add: acquire_def Let_def)
  qed
qed

lemma acquireResume_preserves:
  assumes "pool_conservation p" "keys_distinct p"
  shows "pool_conservation (acquireResume cid startTime now p)
         \<and> keys_distinct (acquireResume cid startTime now p)"
proof (cases "map_of (connections p) cid")
  case None
  show ?thesis unfolding acquireResume_def
    by (rule same_connections_preserves[OF assms]) (simp_all add: None)
next
  case (Some c)
  show ?thesis unfolding acquireResume_def
    by (rule touch_preserves[OF assms Some, where c' = "c\<lparr>inUse := True\<rparr>"]) (simp_all add: Some)
qed

lemma acquireTimer_preserves:
  assumes "pool_conservation p" "keys_distinct p"
  shows "pool_conservation (snd (acquireTimer n p)) \<and> keys_distinct (snd (acquireTimer n p))"
proof (cases "list_ex (\<lambda>w. resolver w = n) (waitingQueue p)")
  case True
  have "pool_conservation (updateStats (p\<lparr>waitingQueue := remove_waiter n (waitingQueue p)\<rparr>))
      \<and> keys_distinct (updateStats (p\<lparr>waitingQueue := remove_waiter n (waitingQueue p)\<rparr>))"
    by (rule same_connections_preserves[OF assms]) simp_all
  with True show ?thesis by (simp add: acquireTimer_def)
next
  case False
  with assms show ?thesis by (simp add: acquireTimer_def)
qed

lemma release_preserves:
  assumes "pool_conservation p" "keys_distinct p"
  shows "pool_conservation (snd (release cid now p)) \<and> keys_distinct (snd (release cid now p))"
proof (cases "map_of (connections p) cid")
  case None
  with assms show ?thesis by (simp add: release_def)
next
  case (Some c)
  define p1 where "p1 = p\<lparr>connections := map_set cid (c\<lparr>inUse := False, lastUsed := now\<rparr>)
                                        (connections p),
                      stats := (stats p)\<lparr>totalReleased := totalReleased (stats p) + 1\<rparr>\<rparr>"
  have k: "cid \<in> set (map fst (connections p))" by (rule map_of_key[OF Some])
  have c1: "pool_conservation p1"
    using assms(1) k by (simp add: p1_def pool_conservation_def map_set_length)
  have k1: "keys_distinct p1"
    using assms(2) k by (simp add: p1_def keys_distinct_def map_set_keys)
  have m1: "map_of (connections p1) cid = Some (c\<lparr>inUse := False, lastUsed := now\<rparr>)"
    by (simp add: p1_def map_set_lookup)
  show ?thesis
  proof (cases "now - createdAt c > maxConnectionAge (config p)")
    case True
    with Some destroyConnection_preserves[OF c1 k1, of cid] show ?thesis
      by (simp add: release_def Let_def p1_def)
  next
    case False
    show ?thesis
    proof (cases "waitingQueue p")
      case Nil
      have "pool_conservation (updateStats (p1\<lparr>availableConnections :=
                                            availableConnections p1 @ [cid]\<rparr>))
          \<and> keys_distinct (updateStats (p1\<lparr>availableConnections :=
                                            availableConnections p1 @ [cid]\<rparr>))"
        by (rule same_connections_preserves[OF c1 k1]) simp_all
      with Some False Nil show ?thesis by (simp add: release_def Let_def p1_def)
    next
      case (Cons w rest)
      have "pool_conservation (updateStats (recordAcquireTime (now - timestamp w) (p1\<lparr>
                        waitingQueue := rest,
                        connections := map_set cid (c\<lparr>inUse := True, lastUsed := now\<rparr>)
                                         (connections p1),
                        stats := (stats p1)\<lparr>totalAcquired := totalAcquired (stats p1) + 1\<rparr>\<rparr>)))
          \<and> keys_distinct (updateStats (recordAcquireTime (now - timestamp w) (p1\<lparr>
                        waitingQueue := rest,
                        connections := map_set cid (c\<lparr>inUse := True, lastUsed := now\<rparr>)
                                         (connections p1),
                        stats := (stats p1)\<lparr>totalAcquired := totalAcquired (stats p1) + 1\<rparr>\<rparr>)))"
        by (rule touch_preserves[OF c1 k1 m1]) simp_all
      with Some False Cons show ?thesis by (simp add: release_def Let_def p1_def)
    qed
  qed
qed

lemma step_preserves:
  assumes "pool_conservation p" "keys_distinct p" "creates_fresh op p" "op \<noteq> Close"
  shows "pool_conservation (snd (step op p)) \<and> keys_distinct (snd (step op p))"
proof (cases op)
  case (Create cid now)
  with createConnection_preserves[OF assms(1,2), of cid now] assms(3) show ?thesis by simp
next
  case (Acquire opens newId now)
  with acquire_preserves[OF assms(1,2), of newId opens now] assms(3) show ?thesis by simp
next
  case (AcquireResume cid startTime now)
  with acquireResume_preserves[OF assms(1,2)] show ?thesis by simp
next
  case (AcquireTimer n)
  with acquireTimer_preserves[OF assms(1,2)] show ?thesis by simp
next
  case (Release cid now)
  with release_preserves[OF assms(1,2)] show ?thesis by simp
next
  case (Destroy cid)
  with destroyConnection_preserves[OF assms(1,2)] show ?thesis by simp
next
  case (Cleanup now)
  with fold_destroy_preserves[OF assms(1,2)] show ?thesis
    by (simp add: cleanupIdleConnections_def)
next
  case (HealthChecks failing)
  with fold_destroy_preserves[OF assms(1,2)] show ?thesis
    by (simp add: performHealthChecks_def)
next
  case GetStats
  have "pool_conservation (updateStats p) \<and> keys_distinct (updateStats p)"
    by (rule same_connections_preserves[OF assms(1,2)]) simp_all
  with GetStats show ?thesis by (simp add: getStats_def)
next
  case Close
  with assms(4) show ?thesis by simp
qed

lemma new_pool_conservation: "pool_conservation (new_pool cfg) \<and> keys_distinct (new_pool cfg)"
  by (simp add: pool_conservation_def keys_distinct_def new_pool_def)

lemma run_state: "snd (run (op # ops) p) = snd (run ops (snd (step op p)))"
  by (cases "step op p"; cases "run ops (snd (step op p))") simp

lemma conservation_until_close:
  "pool_conservation p \<Longrightarrow> keys_distinct p \<Longrightarrow> open_run ops p \<Longrightarrow>
   pool_conservation (snd (run ops p)) \<and> keys_distinct (snd (run ops p))"
proof (induction ops arbitrary: p)
  case Nil
  then show ?case by simp
next
  case (Cons op ops)
  from Cons.prems have o: "op \<noteq> Close" "creates_fresh op p" "open_run ops (snd (step op p))"
    by simp_all
  from step_preserves[OF Cons.prems(1,2) o(2) o(1)]
  have "pool_conservation (snd (run ops (snd (step op p))))
        \<and> keys_distinct (snd (run ops (snd (step op p))))"
    using Cons.IH[OF _ _ o(3)] by blast
  then show ?case by (simp only: run_state)
qed

text \<open>C8.  A pool creates one connection and is closed.  Before \<^verbatim>\<open>close\<close> the equations
  hold.  After it they do not: \<^verbatim>\<open>close\<close> empties \<^verbatim>\<open>connections\<close> without counting the
  connections it closes in \<^verbatim>\<open>totalDestroyed\<close> and without \<^verbatim>\<open>updateStats\<close>; and after a
  \<^verbatim>\<open>getStats\<close>, which brings the other statistics up to date, \<^verbatim>\<open>totalCreated\<close> minus
  \<^verbatim>\<open>totalDestroyed\<close> is still 1 for a pool without connections.  (Every other operation
  preserves the equations: lemmas \<open>step_preserves\<close> and \<open>conservation_until_close\<close>.)\<close>

theorem close_breaks_conservation:
  "pool_conservation (snd (run [Create ''c1'' 0] (new_pool small_pool_config)))
   \<and> \<not> pool_conservation (snd (run [Create ''c1'' 0, Close] (new_pool small_pool_config)))
   \<and> totalCreated (stats (snd (run [Create ''c1'' 0, Close, GetStats] (new_pool small_pool_config))))
       - totalDestroyed (stats (snd (run [Create ''c1'' 0, Close, GetStats] (new_pool small_pool_config))))
       = 1
   \<and> connections (snd (run [Create ''c1'' 0, Close, GetStats] (new_pool small_pool_config))) = []"
  by (simp add: pool_conservation_def new_pool_def createConnection_def updateStats_def close_def
        getStats_def Let_def)

subsection \<open>Waiters are served in the order of their queueing\<close>

lemma enqueued_append: "enqueued (xs @ ys) = enqueued xs @ enqueued ys"
  by (induction xs rule: enqueued.induct) simp_all

lemma resolved_append: "resolved (xs @ ys) = resolved xs @ resolved ys"
  by (induction xs rule: resolved.induct) simp_all

lemma timed_out_append: "timed_out (xs @ ys) = timed_out xs @ timed_out ys"
  by (induction xs rule: timed_out.induct) simp_all

lemma rejected_closing_append:
  "rejected_closing (xs @ ys) = rejected_closing xs @ rejected_closing ys"
  by (induction xs rule: rejected_closing.induct) simp_all

lemma closing_events:
  "enqueued (map (\<lambda>w. PoolClosing (resolver w)) ws) = []"
  "resolved (map (\<lambda>w. PoolClosing (resolver w)) ws) = []"
  "timed_out (map (\<lambda>w. PoolClosing (resolver w)) ws) = []"
  "rejected_closing (map (\<lambda>w. PoolClosing (resolver w)) ws) = map resolver ws"
  by (induction ws) simp_all

lemma updateStats_queue [simp]:
  "waitingQueue (updateStats p) = waitingQueue p" "promises (updateStats p) = promises p"
  by (simp_all add: updateStats_def Let_def)

lemma recordAcquireTime_queue [simp]:
  "waitingQueue (recordAcquireTime t p) = waitingQueue p"
  "promises (recordAcquireTime t p) = promises p"
  by (simp_all add: recordAcquireTime_def Let_def)

lemma createConnection_queue [simp]:
  "waitingQueue (createConnection cid now p) = waitingQueue p"
  "promises (createConnection cid now p) = promises p"
  by (simp_all add: createConnection_def)

lemma destroyConnection_queue [simp]:
  "waitingQueue (destroyConnection cid p) = waitingQueue p"
  "promises (destroyConnection cid p) = promises p"
  by (simp_all add: destroyConnection_def split: option.splits)

lemma fold_destroy_queue [simp]:
  "waitingQueue (fold destroyConnection cids p) = waitingQueue p"
  "promises (fold destroyConnection cids p) = promises p"
  by (induction cids arbitrary: p) simp_all

lemma acquire_cases:
  "(snd (fst (acquire opens newId now p)) = []
      \<and> waitingQueue (snd (acquire opens newId now p)) = waitingQueue p
      \<and> promises (snd (acquire opens newId now p)) = promises p + 1)
   \<or> (snd (fst (acquire opens newId now p)) = [Enqueued (promises p)]
      \<and> waitingQueue (snd (acquire opens newId now p))
          = waitingQueue p @ [\<lparr>resolver = promises p, timestamp = now\<rparr>]
      \<and> promises (snd (acquire opens newId now p)) = promises p + 1)"
  by (simp add: acquire_def Let_def split: list.splits option.splits)

lemma release_cases:
  "(fst (release cid now p) = []
      \<and> waitingQueue (snd (release cid now p)) = waitingQueue p
      \<and> promises (snd (release cid now p)) = promises p)
   \<or> (\<exists>w rest. waitingQueue p = w # rest
      \<and> fst (release cid now p) = [ResolvedWaiter (resolver w) cid]
      \<and> waitingQueue (snd (release cid now p)) = rest
      \<and> promises (snd (release cid now p)) = promises p)"
  by (simp add: release_def Let_def split: list.splits option.splits)

lemma acquireTimer_cases:
  "(fst (acquireTimer n p) = []
      \<and> waitingQueue (snd (acquireTimer n p)) = waitingQueue p
      \<and> promises (snd (acquireTimer n p)) = promises p)
   \<or> (n \<in> set (map resolver (waitingQueue p))
      \<and> fst (acquireTimer n p) = [TimedOut n]
      \<and> waitingQueue (snd (acquireTimer n p)) = remove_waiter n (waitingQueue p)
      \<and> promises (snd (acquireTimer n p)) = promises p)"
  by (auto simp add: acquireTimer_def list_ex_iff)

lemma step_cases:
  obtains
    (silent) "fst (step op p) = []" "waitingQueue (snd (step op p)) = waitingQueue p"
             "promises p \<le> promises (snd (step op p))"
  | (queued) now where "fst (step op p) = [Enqueued (promises p)]"
             "waitingQueue (snd (step op p))
                = waitingQueue p @ [\<lparr>resolver = promises p, timestamp = now\<rparr>]"
             "promises (snd (step op p)) = promises p + 1"
  | (served) w rest c where "waitingQueue p = w # rest"
             "fst (step op p) = [ResolvedWaiter (resolver w) c]"
             "waitingQueue (snd (step op p)) = rest"
             "promises (snd (step op p)) = promises p"
  | (expired) n where "n \<in> set (map resolver (waitingQueue p))"
             "fst (step op p) = [TimedOut n]"
             "waitingQueue (snd (step op p)) = remove_waiter n (waitingQueue p)"
             "promises (snd (step op p)) = promises p"
  | (closed) "fst (step op p) = map (\<lambda>w. PoolClosing (resolver w)) (waitingQueue p)"
             "waitingQueue (snd (step op p)) = []"
             "promises (snd (step op p)) = promises p"
proof (cases op)
  case (Create cid now)
  then show ?thesis using silent by simp
next
  case (Acquire opens newId now)
  with acquire_cases[of opens newId now p] show ?thesis
    using silent queued[of now] by auto
next
  case (AcquireResume cid startTime now)
  then show ?thesis using silent by (simp add: acquireResume_def)
next
  case (AcquireTimer n)
  with acquireTimer_cases[of n p] show ?thesis
    using silent expired[of n] by auto
next
  case (Release cid now)
  with release_cases[of cid now p] show ?thesis
    using silent served by auto
next
  case (Destroy cid)
  then show ?thesis using silent by simp
next
  case (Cleanup now)
  then show ?thesis using silent by (simp add: cleanupIdleConnections_def)
next
  case (HealthChecks failing)
  then show ?thesis using silent by (simp add: performHealthChecks_def)
next
  case GetStats
  then show ?thesis using silent by (simp add: getStats_def)
next
  case Close
  then show ?thesis using closed by (simp add: close_def)
qed

lemma filter_absent: "n \<notin> set xs \<Longrightarrow> filter (\<lambda>m. m \<noteq> n) xs = xs"
  by (induction xs) auto

lemma remove_waiter_resolvers:
  "distinct (map resolver ws) \<Longrightarrow>
   map resolver (remove_waiter n ws) = filter (\<lambda>m. m \<noteq> n) (map resolver ws)"
proof (induction ws)
  case Nil
  show ?case by simp
next
  case (Cons w ws)
  show ?case
  proof (cases "resolver w = n")
    case True
    with Cons.prems have "n \<notin> set (map resolver ws)" by simp
    from filter_absent[OF this] True show ?thesis by simp
  next
    case False
    with Cons show ?thesis by simp
  qed
qed

lemma pending_distinct: "distinct (enqueued es) \<Longrightarrow> distinct (pending es)"
  by (simp add: pending_def)

lemma invariant_silent:
  assumes "queue_invariant es p" "waitingQueue p' = waitingQueue p" "promises p \<le> promises p'"
  shows "queue_invariant (es @ []) p'"
  using assms by (auto simp add: queue_invariant_def list_all_iff)

lemma invariant_queued:
  assumes "queue_invariant es p"
    and "waitingQueue p' = waitingQueue p @ [\<lparr>resolver = promises p, timestamp = now\<rparr>]"
    and "promises p' = promises p + 1"
  shows "queue_invariant (es @ [Enqueued (promises p)]) p'"
proof -
  from assms(1) have fresh: "promises p \<notin> set (enqueued es)"
    by (auto simp add: queue_invariant_def list_all_iff)
  with assms(1) have unsettled: "\<not> settled es (promises p)"
    by (auto simp add: queue_invariant_def settled_def)
  have s: "settled (es @ [Enqueued (promises p)]) = settled es"
    by (simp add: settled_def fun_eq_iff resolved_append timed_out_append
          rejected_closing_append)
  have "pending (es @ [Enqueued (promises p)]) = pending es @ [promises p]"
    using unsettled by (simp add: pending_def s enqueued_append)
  with assms fresh show ?thesis
    by (auto simp add: queue_invariant_def enqueued_append resolved_append timed_out_append
          rejected_closing_append list_all_iff)
qed

lemma pending_remove:
  assumes "settled (es @ [e]) = (\<lambda>m. settled es m \<or> m = n)" "enqueued [e] = []"
  shows "pending (es @ [e]) = filter (\<lambda>m. m \<noteq> n) (pending es)"
  using assms by (simp add: pending_def enqueued_append conj_commute)

lemma invariant_served:
  assumes "queue_invariant es p" "waitingQueue p = w # rest" "waitingQueue p' = rest"
    and "promises p' = promises p"
  shows "queue_invariant (es @ [ResolvedWaiter (resolver w) c]) p'"
proof -
  from assms(1,2) have head: "pending es = resolver w # map resolver rest"
    by (simp add: queue_invariant_def)
  from assms(1) have "distinct (pending es)"
    by (simp add: queue_invariant_def pending_distinct)
  with head have "resolver w \<notin> set (map resolver rest)" by simp
  then have f: "filter (\<lambda>m. m \<noteq> resolver w) (map resolver rest) = map resolver rest"
    by (rule filter_absent)
  have "settled (es @ [ResolvedWaiter (resolver w) c]) = (\<lambda>m. settled es m \<or> m = resolver w)"
    by (auto simp add: settled_def fun_eq_iff resolved_append timed_out_append
          rejected_closing_append)
  from pending_remove[OF this] head f
  have p: "pending (es @ [ResolvedWaiter (resolver w) c]) = map resolver rest" by simp
  have "resolver w \<in> set (pending es)" using head by simp
  then have "resolver w \<in> set (enqueued es)" by (simp add: pending_def)
  with assms p show ?thesis
    by (auto simp add: queue_invariant_def enqueued_append resolved_append timed_out_append
          rejected_closing_append)
qed

lemma invariant_expired:
  assumes "queue_invariant es p" "n \<in> set (map resolver (waitingQueue p))"
    and "waitingQueue p' = remove_waiter n (waitingQueue p)"
    and "promises p' = promises p"
  shows "queue_invariant (es @ [TimedOut n]) p'"
proof -
  from assms(1) have d: "distinct (map resolver (waitingQueue p))"
    by (simp add: queue_invariant_def pending_distinct)
  have "settled (es @ [TimedOut n]) = (\<lambda>m. settled es m \<or> m = n)"
    by (auto simp add: settled_def fun_eq_iff resolved_append timed_out_append
          rejected_closing_append)
  from pending_remove[OF this]
  have p: "pending (es @ [TimedOut n]) = filter (\<lambda>m. m \<noteq> n) (pending es)" by simp
  from assms(1,2) have "n \<in> set (pending es)" by (simp add: queue_invariant_def)
  then have "n \<in> set (enqueued es)" by (simp add: pending_def)
  with assms p remove_waiter_resolvers[OF d, of n] show ?thesis
    by (auto simp add: queue_invariant_def enqueued_append resolved_append timed_out_append
          rejected_closing_append)
qed

lemma invariant_closed:
  assumes "queue_invariant es p" "waitingQueue p' = []" "promises p' = promises p"
  shows "queue_invariant (es @ map (\<lambda>w. PoolClosing (resolver w)) (waitingQueue p)) p'"
proof -
  let ?evs = "map (\<lambda>w. PoolClosing (resolver w)) (waitingQueue p)"
  from assms(1) have q: "map resolver (waitingQueue p) = pending es"
    by (simp add: queue_invariant_def)
  have s: "settled (es @ ?evs) n \<longleftrightarrow> settled es n \<or> n \<in> set (pending es)" for n
    by (auto simp add: settled_def resolved_append timed_out_append rejected_closing_append
          closing_events q)
  have "pending (es @ ?evs) = []"
    by (auto simp add: pending_def enqueued_append closing_events s filter_empty_conv)
  moreover have "set (pending es) \<subseteq> set (enqueued es)" by (auto simp add: pending_def)
  ultimately show ?thesis using assms
    by (auto simp add: queue_invariant_def enqueued_append resolved_append timed_out_append
          rejected_closing_append closing_events q)
qed

lemma split_before_tail:
  assumes "es @ evs = pre @ ResolvedWaiter w2 c # post"
    and "ResolvedWaiter w2 c \<notin> set evs"
  shows "\<exists>post'. es = pre @ ResolvedWaiter w2 c # post'"
proof -
  from assms(1) obtain us
    where "(es = pre @ us \<and> us @ evs = ResolvedWaiter w2 c # post)
           \<or> (es @ us = pre \<and> evs = us @ ResolvedWaiter w2 c # post)"
    by (auto simp add: append_eq_append_conv2)
  then show ?thesis
  proof
    assume a: "es = pre @ us \<and> us @ evs = ResolvedWaiter w2 c # post"
    show ?thesis
    proof (cases us)
      case Nil
      with a assms(2) show ?thesis by auto
    next
      case (Cons u us')
      with a show ?thesis by auto
    qed
  next
    assume "es @ us = pre \<and> evs = us @ ResolvedWaiter w2 c # post"
    with assms(2) show ?thesis by auto
  qed
qed

lemma before_Cons:
  "before a b (x # xs) = (if x = a then b \<in> set xs else before a b xs)"
  by (simp add: before_def)

lemma before_in_set: "before a b xs \<Longrightarrow> b \<in> set xs"
  unfolding before_def by (meson in_set_dropD set_dropWhileD)

lemma head_of_pending:
  assumes "filter P xs = b # rest" "before a b xs" "distinct xs"
  shows "\<not> P a"
  using assms
proof (induction xs)
  case Nil
  then show ?case by simp
next
  case (Cons x xs)
  show ?case
  proof (cases "x = a")
    case True
    with Cons.prems(2) have "b \<in> set xs" by (simp add: before_Cons)
    with Cons.prems(3) have "b \<noteq> x" by auto
    with Cons.prems(1) True show ?thesis by (auto split: if_splits)
  next
    case False
    with Cons.prems(2) have b: "before a b xs" by (simp add: before_Cons)
    then have "b \<in> set xs" by (rule before_in_set)
    with Cons.prems(3) have "b \<noteq> x" by auto
    with Cons.prems(1) have "filter P xs = b # rest" by (auto split: if_splits)
    from Cons.IH[OF this b] Cons.prems(3) show ?thesis by simp
  qed
qed

lemma before_prefix:
  assumes "before a b (xs @ ys)" "distinct (xs @ ys)" "b \<in> set xs"
  shows "before a b xs"
  using assms
proof (induction xs)
  case Nil
  then show ?case by simp
next
  case (Cons x xs)
  show ?case
  proof (cases "x = a")
    case True
    with Cons.prems show ?thesis by (auto simp add: before_Cons)
  next
    case False
    with Cons.prems(1) have b: "before a b (xs @ ys)" by (simp add: before_Cons)
    then have "b \<in> set (xs @ ys)" by (rule before_in_set)
    with Cons.prems(2) have "b \<noteq> x" by auto
    with Cons.prems(3) have "b \<in> set xs" by simp
    from Cons.IH[OF b _ this] Cons.prems(2) False show ?thesis by (simp add: before_Cons)
  qed
qed

lemma run_snoc:
  "run (ops @ [op]) p =
     (fst (run ops p) @ fst (step op (snd (run ops p))), snd (step op (snd (run ops p))))"
  by (induction ops arbitrary: p) (simp_all split: prod.splits)

lemma run_fifo:
  "queue_invariant (fst (run ops (new_pool cfg))) (snd (run ops (new_pool cfg)))
   \<and> (\<forall>pre w2 c post w1.
         fst (run ops (new_pool cfg)) = pre @ ResolvedWaiter w2 c # post
         \<longrightarrow> w2 \<in> set (enqueued pre)
             \<and> (before w1 w2 (enqueued pre) \<longrightarrow> settled pre w1))"
proof (induction ops rule: rev_induct)
  case Nil
  show ?case by (simp add: queue_invariant_def new_pool_def pending_def)
next
  case (snoc op ops)
  define es where "es = fst (run ops (new_pool cfg))"
  define p where "p = snd (run ops (new_pool cfg))"
  from snoc have inv: "queue_invariant es p"
    and old: "\<And>pre w2 c post w1. es = pre @ ResolvedWaiter w2 c # post
               \<Longrightarrow> w2 \<in> set (enqueued pre)
                   \<and> (before w1 w2 (enqueued pre) \<longrightarrow> settled pre w1)"
    by (simp_all add: es_def p_def)
  have r: "run (ops @ [op]) (new_pool cfg) = (es @ fst (step op p), snd (step op p))"
    by (simp add: run_snoc es_def p_def)
  have other: "w2 \<in> set (enqueued pre) \<and> (before w1 w2 (enqueued pre) \<longrightarrow> settled pre w1)"
    if "es @ evs = pre @ ResolvedWaiter w2 c # post" "ResolvedWaiter w2 c \<notin> set evs"
    for evs pre w2 c post w1
  proof -
    from split_before_tail[OF that] obtain post'
      where "es = pre @ ResolvedWaiter w2 c # post'" by blast
    then show ?thesis by (rule old)
  qed
  have finish: ?case
    if "fst (step op p) = evs" "queue_invariant (es @ evs) (snd (step op p))"
       "\<And>pre w2 c post w1. es @ evs = pre @ ResolvedWaiter w2 c # post
          \<Longrightarrow> w2 \<in> set (enqueued pre)
              \<and> (before w1 w2 (enqueued pre) \<longrightarrow> settled pre w1)"
    for evs
  proof -
    have l: "fst (run (ops @ [op]) (new_pool cfg)) = es @ evs"
      and t: "snd (run (ops @ [op]) (new_pool cfg)) = snd (step op p)"
      using r that(1) by simp_all
    show ?thesis unfolding l t using that(2,3) by blast
  qed
  show ?case
  proof (cases rule: step_cases[where op = op and p = p])
    case silent
    have "queue_invariant (es @ []) (snd (step op p))"
      by (rule invariant_silent[OF inv silent(2) silent(3)])
    moreover have "w2 \<in> set (enqueued pre)
              \<and> (before w1 w2 (enqueued pre) \<longrightarrow> settled pre w1)"
      if "es @ [] = pre @ ResolvedWaiter w2 c # post" for pre w2 c post w1
      using that by (rule other) simp
    ultimately show ?thesis by (rule finish[OF silent(1)])
  next
    case (queued now)
    have "queue_invariant (es @ [Enqueued (promises p)]) (snd (step op p))"
      by (rule invariant_queued[OF inv queued(2,3)])
    moreover have "w2 \<in> set (enqueued pre)
              \<and> (before w1 w2 (enqueued pre) \<longrightarrow> settled pre w1)"
      if "es @ [Enqueued (promises p)] = pre @ ResolvedWaiter w2 c # post" for pre w2 c post w1
      using that by (rule other) simp
    ultimately show ?thesis by (rule finish[OF queued(1)])
  next
    case (expired n)
    have "queue_invariant (es @ [TimedOut n]) (snd (step op p))"
      by (rule invariant_expired[OF inv expired(1,3,4)])
    moreover have "w2 \<in> set (enqueued pre)
              \<and> (before w1 w2 (enqueued pre) \<longrightarrow> settled pre w1)"
      if "es @ [TimedOut n] = pre @ ResolvedWaiter w2 c # post" for pre w2 c post w1
      using that by (rule other) simp
    ultimately show ?thesis by (rule finish[OF expired(2)])
  next
    case closed
    have "queue_invariant (es @ map (\<lambda>w. PoolClosing (resolver w)) (waitingQueue p))
            (snd (step op p))"
      by (rule invariant_closed[OF inv closed(2,3)])
    moreover have "w2 \<in> set (enqueued pre)
              \<and> (before w1 w2 (enqueued pre) \<longrightarrow> settled pre w1)"
      if "es @ map (\<lambda>w. PoolClosing (resolver w)) (waitingQueue p)
            = pre @ ResolvedWaiter w2 c # post" for pre w2 c post w1
      using that by (rule other) auto
    ultimately show ?thesis by (rule finish[OF closed(1)])
  next
    case (served w rest c)
    have new: "w2 \<in> set (enqueued pre) \<and> (before w1 w2 (enqueued pre) \<longrightarrow> settled pre w1)"
      if split: "es @ [ResolvedWaiter (resolver w) c] = pre @ ResolvedWaiter w2 c' # post"
      for pre w2 c' post w1
    proof (cases post rule: rev_cases)
      case Nil
      with split have pre: "pre = es" and w2: "w2 = resolver w" by auto
      from inv served(1) have head: "pending es = resolver w # map resolver rest"
        by (simp add: queue_invariant_def)
      then have "resolver w \<in> set (pending es)" by simp
      then have "resolver w \<in> set (enqueued es)" by (simp add: pending_def)
      moreover have "settled es w1" if "before w1 (resolver w) (enqueued es)"
      proof -
        from inv have "distinct (enqueued es)" by (simp add: queue_invariant_def)
        from head_of_pending[OF head[unfolded pending_def] that this] show ?thesis by simp
      qed
      ultimately show ?thesis by (simp add: pre w2)
    next
      case (snoc post' x)
      with split have "es = pre @ ResolvedWaiter w2 c' # post'" by simp
      then show ?thesis by (rule old)
    qed
    have "queue_invariant (es @ [ResolvedWaiter (resolver w) c]) (snd (step op p))"
      by (rule invariant_served[OF inv served(1,3,4)])
    then show ?thesis using new by (rule finish[OF served(2)])
  qed
qed

lemma run_log:
  "fst (run (op # ops) p) = fst (step op p) @ fst (run ops (snd (step op p)))"
  by (simp split: prod.splits)

text \<open>C9 (as the claim states it, refuted).  In \<open>closing_scenario\<close> the promise 1 is
  queued, \<^verbatim>\<open>close\<close> rejects it ("Pool is closing"), the promise 3 is queued after it, and the
  release of \<^verbatim>\<open>b\<close> resolves 3: the waiter queued first is never resolved, and its timeout
  has not elapsed.\<close>

theorem close_lets_a_later_waiter_pass:
  "fst (run closing_scenario (new_pool single_pool_config))
     = [Enqueued 1, PoolClosing 1, Enqueued 3] @ ResolvedWaiter 3 ''b'' # []
   \<and> before 1 3 (enqueued (fst (run closing_scenario (new_pool single_pool_config))))
   \<and> 1 \<notin> set (resolved [Enqueued 1, PoolClosing 1, Enqueued 3])
   \<and> 1 \<notin> set (timed_out [Enqueued 1, PoolClosing 1, Enqueued 3])"
proof -
  have l: "fst (run closing_scenario (new_pool single_pool_config))
             = [Enqueued 1, PoolClosing 1, Enqueued 3, ResolvedWaiter 3 ''b'']"
    by (simp add: run_log closing_scenario_def new_pool_def single_pool_config_def acquire_def
          acquireResume_def release_def close_def createConnection_def updateStats_def
          recordAcquireTime_def Let_def del: run.simps(2))
  show ?thesis unfolding l by (simp add: before_def)
qed

text \<open>C9 (amended).  In every run of a pool from its construction, when a release resolves
  the waiter \<open>w2\<close> and the waiter \<open>w1\<close> was queued before \<open>w2\<close>, then before that release
  \<open>w1\<close> has been resolved, or has left the queue by its timeout or by \<^verbatim>\<open>close\<close>, which
  rejects every queued waiter.\<close>

theorem waiters_are_served_fifo:
  assumes "fst (run ops (new_pool cfg)) = pre @ ResolvedWaiter w2 c # post"
    and "before w1 w2 (enqueued (fst (run ops (new_pool cfg))))"
  shows "w1 \<in> set (resolved pre) \<or> w1 \<in> set (timed_out pre)
         \<or> w1 \<in> set (rejected_closing pre)"
proof -
  from run_fifo[of ops cfg]
  have d: "distinct (enqueued (fst (run ops (new_pool cfg))))"
    and f: "w2 \<in> set (enqueued pre)"
           "before w1 w2 (enqueued pre) \<Longrightarrow> settled pre w1"
    using assms(1) by (auto simp add: queue_invariant_def)
  have e: "enqueued (fst (run ops (new_pool cfg)))
             = enqueued pre @ enqueued (ResolvedWaiter w2 c # post)"
    by (simp only: assms(1) enqueued_append)
  from assms(2) d have "before w1 w2 (enqueued pre)"
    unfolding e by (rule before_prefix) (rule f(1))
  from f(2)[OF this] show ?thesis by (simp add: settled_def)
qed

theorem waiters_are_served_fifo_witness:
  "fst (run fifo_scenario (new_pool single_pool_config))
     = [Enqueued 1, Enqueued 2, ResolvedWaiter 1 ''a''] @ ResolvedWaiter 2 ''a'' # []
   \<and> before 1 2 (enqueued (fst (run fifo_scenario (new_pool single_pool_config))))
   \<and> (1 \<in> set (resolved [Enqueued 1, Enqueued 2, ResolvedWaiter 1 ''a''])
        \<or> 1 \<in> set (timed_out [Enqueued 1, Enqueued 2, ResolvedWaiter 1 ''a''])
        \<or> 1 \<in> set (rejected_closing [Enqueued 1, Enqueued 2, ResolvedWaiter 1 ''a'']))"
proof -
  have l: "fst (run fifo_scenario (new_pool single_pool_config))
             = [Enqueued 1, Enqueued 2, ResolvedWaiter 1 ''a''] @ ResolvedWaiter 2 ''a'' # []"
    by (simp add: run_log fifo_scenario_def new_pool_def single_pool_config_def acquire_def
          release_def createConnection_def updateStats_def
          recordAcquireTime_def Let_def del: run.simps(2))
  have b: "before 1 2 (enqueued (fst (run fifo_scenario (new_pool single_pool_config))))"
    unfolding l by (simp add: before_def)
  from waiters_are_served_fifo[OF l b] l b show ?thesis by (intro conjI)
qed

end
